theory Spec2Isabelle
  imports Complex_Main "HOL-Library.AList"
begin

section \<open>A physics-informed network in PyTorch: the model of \<^verbatim>\<open>PINN_torch.py\<close>\<close>

text \<open>
  The class \<^verbatim>\<open>PhysicsInformedNN\<close> is embedded function by function. The conventions:
  \<^item> float32 arithmetic is idealised as arithmetic over \<open>real\<close>: no rounding and no
    overflow. The one \<^verbatim>\<open>nan\<close> that exact arithmetic produces in the model's methods, the
    mean of an empty tensor, is a value of its own (\<open>scalar\<close>);
  \<^item> a 2-D array (numpy array, the value of a torch tensor) is an \<open>array\<close>: its number of
    columns and the list of its rows;
  \<^item> a torch tensor is a \<open>tensor\<close> record: its value, its \<^verbatim>\<open>requires_grad\<close> flag,
    whether it has a \<^verbatim>\<open>grad_fn\<close> (it is the result of an operation recorded in the
    graph, not a leaf) and its \<^verbatim>\<open>.grad\<close> slot;
  \<^item> the parameters (weights and biases) are the only tensors the program mutates in
    place, so they live in a \<open>store\<close> and are referred to by address; every other tensor
    is passed by value;
  \<^item> a Python \<^verbatim>\<open>dict\<close> is an association list with distinct keys, in insertion order;
  \<^item> a raised exception is \<open>Inl e\<close> of the result type \<open>error + 'a\<close>;
  \<^item> what the program takes from PyTorch and does not define itself -- the random
    draws of the initialiser, reverse-mode differentiation, the optimizer -- is a
    parameter of the function that uses it.
\<close>

subsection \<open>Exceptions\<close>

datatype error =
    IndexError
  | KeyError string
  | TypeError
  | NameError string
  | UnboundLocalError string
  | RuntimeError
  | ValueError
  | ZeroDivisionError

definition ebind :: "error + 'a \<Rightarrow> ('a \<Rightarrow> error + 'b) \<Rightarrow> error + 'b" where
  "ebind m f = (case m of Inl e \<Rightarrow> Inl e | Inr v \<Rightarrow> f v)"

text \<open>Python's \<^verbatim>\<open>xs[l]\<close> for \<open>l \<ge> 0\<close>, \<^verbatim>\<open>xs[-1]\<close> and \<^verbatim>\<open>d[k]\<close>.\<close>

definition getidx :: "'a list \<Rightarrow> nat \<Rightarrow> error + 'a" where
  "getidx xs l = (if l < length xs then Inr (xs ! l) else Inl IndexError)"

definition getlast :: "'a list \<Rightarrow> error + 'a" where
  "getlast xs = (if xs = [] then Inl IndexError else Inr (last xs))"

definition getitem :: "(string \<times> 'v) list \<Rightarrow> string \<Rightarrow> error + 'v" where
  "getitem d k = (case map_of d k of None \<Rightarrow> Inl (KeyError k) | Some v \<Rightarrow> Inr v)"

subsection \<open>Arrays\<close>

datatype array = Array (ncols: nat) (rows: "real list list")

definition nrows :: "array \<Rightarrow> nat" where
  "nrows a = length (rows a)"

definition shape :: "array \<Rightarrow> nat \<times> nat" where
  "shape a = (nrows a, ncols a)"

definition wf_array :: "array \<Rightarrow> bool" where
  "wf_array a = list_all (\<lambda>r. length r = ncols a) (rows a)"

definition entry :: "array \<Rightarrow> nat \<Rightarrow> nat \<Rightarrow> real" where
  "entry a i j = rows a ! i ! j"

text \<open>The array of shape \<open>(r, c)\<close> whose entry \<open>(i, j)\<close> is \<open>f i j\<close>.\<close>

definition mk :: "nat \<Rightarrow> nat \<Rightarrow> (nat \<Rightarrow> nat \<Rightarrow> real) \<Rightarrow> array" where
  "mk r c f = Array c (map (\<lambda>i. map (f i) [0..<c]) [0..<r])"

definition zeros :: "nat \<Rightarrow> nat \<Rightarrow> array" where
  "zeros r c = mk r c (\<lambda>i j. 0)"

text \<open>
  \<^verbatim>\<open>torch.empty(r, c)\<close> allocates without initialising. The only use fills the tensor
  at once, so its contents are never read; they are taken as zero.
\<close>

definition empty :: "nat \<Rightarrow> nat \<Rightarrow> array" where
  "empty r c = mk r c (\<lambda>i j. 0)"

definition map_array :: "(real \<Rightarrow> real) \<Rightarrow> array \<Rightarrow> array" where
  "map_array g a = mk (nrows a) (ncols a) (\<lambda>i j. g (entry a i j))"

text \<open>\<^verbatim>\<open>torch.cat((a, b), 1)\<close>: side by side; the row counts must agree.\<close>

definition cat1 :: "array \<Rightarrow> array \<Rightarrow> error + array" where
  "cat1 a b =
     (if nrows a = nrows b
      then Inr (mk (nrows a) (ncols a + ncols b)
                  (\<lambda>i j. if j < ncols a then entry a i j else entry b i (j - ncols a)))
      else Inl RuntimeError)"

text \<open>\<^verbatim>\<open>torch.matmul(a, b)\<close> of two 2-D tensors: the inner dimensions must agree.\<close>

definition matmul :: "array \<Rightarrow> array \<Rightarrow> error + array" where
  "matmul a b =
     (if ncols a = nrows b
      then Inr (mk (nrows a) (ncols b)
                  (\<lambda>i j. sum_list (map (\<lambda>k. entry a i k * entry b k j) [0..<ncols a])))
      else Inl RuntimeError)"

text \<open>
  Elementwise binary operations broadcast: along each dimension the two sizes must be
  equal or one of them must be 1, and a dimension of size 1 is repeated. Otherwise
  torch raises \<^verbatim>\<open>RuntimeError\<close> and numpy \<^verbatim>\<open>ValueError\<close>: the error is a parameter.
\<close>

definition compat :: "nat \<Rightarrow> nat \<Rightarrow> bool" where
  "compat m n = (m = n \<or> m = 1 \<or> n = 1)"

definition bdim :: "nat \<Rightarrow> nat \<Rightarrow> nat" where
  "bdim m n = (if m = 1 then n else m)"

definition bidx :: "nat \<Rightarrow> nat \<Rightarrow> nat" where
  "bidx n i = (if n = 1 then 0 else i)"

definition broadcast ::
  "error \<Rightarrow> (real \<Rightarrow> real \<Rightarrow> real) \<Rightarrow> array \<Rightarrow> array \<Rightarrow> error + array" where
  "broadcast e g a b =
     (if compat (nrows a) (nrows b) \<and> compat (ncols a) (ncols b)
      then Inr (mk (bdim (nrows a) (nrows b)) (bdim (ncols a) (ncols b))
                  (\<lambda>i j. g (entry a (bidx (nrows a) i) (bidx (ncols a) j))
                           (entry b (bidx (nrows b) i) (bidx (ncols b) j))))
      else Inl e)"

definition add :: "array \<Rightarrow> array \<Rightarrow> error + array" where
  "add a b = broadcast RuntimeError (\<lambda>u v. u + v) a b"

definition sub :: "array \<Rightarrow> array \<Rightarrow> error + array" where
  "sub a b = broadcast RuntimeError (\<lambda>u v. u - v) a b"

text \<open>
  \<^verbatim>\<open>t.sum()\<close>, \<^verbatim>\<open>t.pow(2)\<close> and \<^verbatim>\<open>torch.mean(t)\<close>. The mean of a tensor with no
  element is \<^verbatim>\<open>nan\<close>, and \<^verbatim>\<open>nan\<close> stays \<^verbatim>\<open>nan\<close> under a product and a sum: a loss is a
  \<open>scalar\<close>.
\<close>

datatype scalar = Num real | NaN

definition tsum :: "array \<Rightarrow> real" where
  "tsum a = sum_list (map sum_list (rows a))"

definition pow2 :: "array \<Rightarrow> array" where
  "pow2 a = map_array (\<lambda>v. v ^ 2) a"

definition mean :: "array \<Rightarrow> scalar" where
  "mean a = (if nrows a * ncols a = 0 then NaN else Num (tsum a / real (nrows a * ncols a)))"

definition scale :: "real \<Rightarrow> scalar \<Rightarrow> scalar" where
  "scale w v = (case v of NaN \<Rightarrow> NaN | Num r \<Rightarrow> Num (w * r))"

definition accumulate :: "scalar \<Rightarrow> scalar \<Rightarrow> scalar" where
  "accumulate u v = (case (u, v) of (Num a, Num b) \<Rightarrow> Num (a + b) | _ \<Rightarrow> NaN)"

subsection \<open>Tensors and the parameter store\<close>

record tensor =
  data :: array
  requires_grad :: bool
  grad_fn :: bool
  grad :: "array option"

text \<open>
  The result of an operation: it tracks gradients when an operand does, and it is then
  a node of the graph. A tensor made from data is a leaf.
\<close>

definition result :: "array \<Rightarrow> bool \<Rightarrow> tensor" where
  "result v rg = \<lparr>data = v, requires_grad = rg, grad_fn = rg, grad = None\<rparr>"

definition new_leaf :: "array \<Rightarrow> bool \<Rightarrow> tensor" where
  "new_leaf v rg = \<lparr>data = v, requires_grad = rg, grad_fn = False, grad = None\<rparr>"

definition lift2 :: "(array \<Rightarrow> array \<Rightarrow> error + array) \<Rightarrow> tensor \<Rightarrow> tensor \<Rightarrow> error + tensor" where
  "lift2 opr a b =
     (case opr (data a) (data b) of
        Inl e \<Rightarrow> Inl e
      | Inr v \<Rightarrow> Inr (result v (requires_grad a \<or> requires_grad b)))"

definition torch_cat :: "tensor \<Rightarrow> tensor \<Rightarrow> error + tensor" where
  "torch_cat a b = lift2 cat1 a b"

definition torch_matmul :: "tensor \<Rightarrow> tensor \<Rightarrow> error + tensor" where
  "torch_matmul a b = lift2 matmul a b"

definition torch_add :: "tensor \<Rightarrow> tensor \<Rightarrow> error + tensor" where
  "torch_add a b = lift2 add a b"

definition torch_sub :: "tensor \<Rightarrow> tensor \<Rightarrow> error + tensor" where
  "torch_sub a b = lift2 sub a b"

definition torch_tanh :: "tensor \<Rightarrow> tensor" where
  "torch_tanh a = result (map_array tanh (data a)) (requires_grad a)"

text \<open>
  \<^verbatim>\<open>t.requires_grad_(True)\<close> sets the flag and returns the tensor: a leaf stays a leaf.
\<close>

definition set_requires_grad :: "tensor \<Rightarrow> tensor" where
  "set_requires_grad t = t\<lparr>requires_grad := True\<rparr>"

type_synonym ref = nat

record store =
  cells :: "ref \<Rightarrow> tensor"
  fresh :: ref

text \<open>
  \<^verbatim>\<open>Variable(v, requires_grad=rg)\<close> makes a new tensor object: the next unused address.
\<close>

definition Variable :: "array \<Rightarrow> bool \<Rightarrow> store \<Rightarrow> ref \<times> store" where
  "Variable v rg s =
     (fresh s, s\<lparr>cells := (cells s)(fresh s := new_leaf v rg), fresh := Suc (fresh s)\<rparr>)"

subsection \<open>Parameter store: \<^verbatim>\<open>xavier_init\<close> and \<^verbatim>\<open>initialize_NN\<close>\<close>

text \<open>
  The random generator is the stream of its future standard-normal draws.
  \<^verbatim>\<open>nn.init.xavier_normal_(t)\<close> overwrites \<open>t\<close>, keeping its shape, with draws scaled
  by \<open>sqrt (2 / (fan_in + fan_out))\<close>, and returns it. The quotient is Python's: for a
  tensor of shape \<open>(0, 0)\<close> it raises \<^verbatim>\<open>ZeroDivisionError\<close>.
\<close>

type_synonym generator = "nat \<Rightarrow> real"

definition xavier_normal :: "array \<Rightarrow> generator \<Rightarrow> error + array \<times> generator" where
  "xavier_normal t g =
     (let r = nrows t; c = ncols t in
      if c + r = 0 then Inl ZeroDivisionError
      else let std = sqrt (2 / real (c + r))
           in Inr (mk r c (\<lambda>i j. std * g (i * c + j)), \<lambda>k. g (k + r * c)))"

definition xavier_init ::
  "nat \<times> nat \<Rightarrow> generator \<Rightarrow> store \<Rightarrow> error + ref \<times> generator \<times> store" where
  "xavier_init sz g s =
     ebind (xavier_normal (empty (fst sz) (snd sz)) g) (\<lambda>(v, g').
     let (W, s') = Variable v True s
     in Inr (W, g', s'))"

text \<open>
  The loop \<^verbatim>\<open>for l in range(0, num_layers-1)\<close>. Every index \<open>l\<close> it visits has
  \<open>l + 1 < len(layers)\<close>, so \<^verbatim>\<open>layers[l]\<close> and \<^verbatim>\<open>layers[l+1]\<close> never raise.
  For an empty \<open>layers\<close> the bound is \<open>-1\<close> in Python and \<open>0\<close> here: no iteration
  either way.
\<close>

primrec init_loop ::
  "nat list \<Rightarrow> nat list \<Rightarrow> ref list \<Rightarrow> ref list \<Rightarrow> generator \<Rightarrow> store
     \<Rightarrow> error + (ref list \<times> ref list) \<times> generator \<times> store" where
  "init_loop lay [] ws bs g s = Inr ((ws, bs), g, s)"
| "init_loop lay (l # ls) ws bs g s =
     ebind (xavier_init (lay ! l, lay ! (l + 1)) g s) (\<lambda>(W, g', s1).
     let (b, s2) = Variable (zeros 1 (lay ! (l + 1))) True s1
     in init_loop lay ls (ws @ [W]) (bs @ [b]) g' s2)"

definition initialize_NN ::
  "nat list \<Rightarrow> generator \<Rightarrow> store
     \<Rightarrow> error + (ref list \<times> ref list) \<times> generator \<times> store" where
  "initialize_NN lay g s = init_loop lay [0..<length lay - 1] [] [] g s"

subsection \<open>Forward evaluator: \<^verbatim>\<open>neural_net\<close>\<close>

text \<open>
  The loop \<^verbatim>\<open>for l in range(0, num_layers-2)\<close> with \<open>num_layers = len(weights) + 1\<close>:
  the hidden layers. \<^verbatim>\<open>weights[l]\<close> is in range there; \<^verbatim>\<open>biases[l]\<close> raises when the
  bias list is shorter.
\<close>

primrec hidden_loop :: "tensor list \<Rightarrow> tensor list \<Rightarrow> nat list \<Rightarrow> tensor \<Rightarrow> error + tensor" where
  "hidden_loop ws bs [] H = Inr H"
| "hidden_loop ws bs (l # ls) H =
     ebind (getidx ws l) (\<lambda>W.
     ebind (getidx bs l) (\<lambda>b.
     ebind (torch_matmul H W) (\<lambda>HW.
     ebind (torch_add HW b) (\<lambda>Z.
     hidden_loop ws bs ls (torch_tanh Z)))))"

definition neural_net :: "tensor \<Rightarrow> tensor \<Rightarrow> tensor list \<Rightarrow> tensor list \<Rightarrow> error + tensor" where
  "neural_net x y ws bs =
     (let num_layers = length ws + 1 in
      ebind (torch_cat x y) (\<lambda>H0.
      ebind (hidden_loop ws bs [0..<num_layers - 2] H0) (\<lambda>H.
      ebind (getlast ws) (\<lambda>W.
      ebind (getlast bs) (\<lambda>b.
      ebind (torch_matmul H W) (\<lambda>HW.
      torch_add HW b))))))"


subsection \<open>The model object\<close>

text \<open>
  The fields of \<^verbatim>\<open>self\<close> that the methods read or write. \<^verbatim>\<open>self.preds\<close> and
  \<^verbatim>\<open>self.optimizer\<close> are set by the constructor and never read again (training uses
  the optimizer it is handed), so they are left out.
\<close>

type_synonym preds = "(string \<times> tensor option) list"
type_synonym tdict = "(string \<times> tensor) list"
type_synonym train_dict = "(string \<times> tensor \<times> tensor \<times> tensor) list"

record pinn =
  layers :: "nat list"
  weights :: "ref list"
  biases :: "ref list"
  loss :: "scalar option"
  loss_list :: "scalar list"
  pred_dict :: "preds option"

definition init ::
  "nat list \<Rightarrow> generator \<Rightarrow> store \<Rightarrow> error + pinn \<times> generator \<times> store" where
  "init lay g s =
     ebind (initialize_NN lay g s) (\<lambda>((ws, bs), g', s').
     Inr (\<lparr>layers = lay, weights = ws, biases = bs, loss = None, loss_list = [],
           pred_dict = None\<rparr>, g', s'))"

definition the_weights :: "pinn \<Rightarrow> store \<Rightarrow> tensor list" where
  "the_weights self s = map (cells s) (weights self)"

definition the_biases :: "pinn \<Rightarrow> store \<Rightarrow> tensor list" where
  "the_biases self s = map (cells s) (biases self)"

subsection \<open>Reverse-mode differentiation\<close>

text \<open>
  \<^verbatim>\<open>torch.autograd.grad(out, inputs)\<close> differentiates the scalar \<open>out\<close> against the
  tensors \<open>inputs\<close> through the graph that computed \<open>out\<close>, and returns one gradient
  per input. The scalar is represented by a \<open>graph\<close>: what it denotes (the scalar as a
  function of the values of the inputs), whether it requires gradients, and whether
  its graph reaches the inputs. \<^verbatim>\<open>grad\<close> raises \<^verbatim>\<open>RuntimeError\<close> when the scalar does
  not require gradients, when an input does not, and when an input was not used in
  the graph (\<^verbatim>\<open>allow_unused\<close> is left at \<^verbatim>\<open>False\<close> everywhere). The differentiation
  itself is PyTorch's; it is the parameter \<open>G\<close>, which may raise. The gradients
  returned are nodes of the graph exactly when \<^verbatim>\<open>create_graph\<close> is set.
\<close>

type_synonym autograd = "(array list \<Rightarrow> real) \<Rightarrow> array list \<Rightarrow> error + array list"

record graph =
  denotes :: "array list \<Rightarrow> real"
  tracked :: bool
  reaches :: bool

definition autograd_grad ::
  "autograd \<Rightarrow> bool \<Rightarrow> graph \<Rightarrow> tensor list \<Rightarrow> error + tensor list" where
  "autograd_grad G create_graph out inputs =
     (if tracked out \<and> list_all requires_grad inputs \<and> reaches out
      then ebind (G (denotes out) (map data inputs))
             (\<lambda>gs. Inr (map (\<lambda>v. result v create_graph) gs))
      else Inl RuntimeError)"

subsection \<open>Forward evaluator: \<^verbatim>\<open>net_u\<close>, \<^verbatim>\<open>net_du\<close>, \<^verbatim>\<open>net_f\<close>\<close>

definition net_u :: "pinn \<Rightarrow> store \<Rightarrow> tensor \<Rightarrow> tensor \<Rightarrow> error + tensor" where
  "net_u self s x y = neural_net x y (the_weights self s) (the_biases self s)"

text \<open>
  \<^verbatim>\<open>u.sum()\<close> as a function of the value of \<open>x\<close>, and of the value of \<open>y\<close>: what
  \<^verbatim>\<open>grad(u.sum(), x)\<close> and \<^verbatim>\<open>grad(u.sum(), y)\<close> differentiate. The sum requires
  gradients when \<open>u\<close> does, and the graph of \<open>u\<close>, when it has one, starts at the
  concatenation of \<open>x\<close> and \<open>y\<close>.
\<close>

definition sum_of :: "error + tensor \<Rightarrow> real" where
  "sum_of r = (case r of Inl e \<Rightarrow> 0 | Inr u \<Rightarrow> tsum (data u))"

definition u_sum_x :: "pinn \<Rightarrow> store \<Rightarrow> tensor \<Rightarrow> tensor \<Rightarrow> array list \<Rightarrow> real" where
  "u_sum_x self s x y vs =
     (case vs of [v] \<Rightarrow> sum_of (neural_net (x\<lparr>data := v\<rparr>) y (the_weights self s) (the_biases self s))
      | _ \<Rightarrow> 0)"

definition u_sum_y :: "pinn \<Rightarrow> store \<Rightarrow> tensor \<Rightarrow> tensor \<Rightarrow> array list \<Rightarrow> real" where
  "u_sum_y self s x y vs =
     (case vs of [v] \<Rightarrow> sum_of (neural_net x (y\<lparr>data := v\<rparr>) (the_weights self s) (the_biases self s))
      | _ \<Rightarrow> 0)"

definition net_du :: "autograd \<Rightarrow> pinn \<Rightarrow> store \<Rightarrow> tensor \<Rightarrow> tensor \<Rightarrow> error + tensor \<times> tensor" where
  "net_du G self s x y =
     ebind (neural_net x y (the_weights self s) (the_biases self s)) (\<lambda>u.
     ebind (autograd_grad G True
              \<lparr>denotes = u_sum_x self s x y, tracked = requires_grad u, reaches = grad_fn u\<rparr>
              [x]) (\<lambda>gx.
     ebind (getidx gx 0) (\<lambda>u_x.
     ebind (autograd_grad G True
              \<lparr>denotes = u_sum_y self s x y, tracked = requires_grad u, reaches = grad_fn u\<rparr>
              [y]) (\<lambda>gy.
     ebind (getidx gy 0) (\<lambda>u_y.
     Inr (set_requires_grad u_x, set_requires_grad u_y))))))"

text \<open>
  \<^verbatim>\<open>u_x.sum()\<close> as a function of the value of \<open>x\<close> and \<^verbatim>\<open>u_y.sum()\<close> as a function of
  the value of \<open>y\<close>: what the second differentiation in \<^verbatim>\<open>net_f\<close> works on.

  Whether the graph of \<open>u_y\<close> reaches \<open>y\<close> is decided by the backward pass that built
  it. The derivative of an affine layer in its input is the layer's weight, which
  does not mention the input; the derivative of \<open>tanh\<close> is computed from the layer's
  output, which does. So the graph of a first derivative reaches \<open>x\<close> and \<open>y\<close> exactly
  when that derivative has a graph (\<^verbatim>\<open>create_graph\<close> was set) and the loop over the
  hidden layers, \<^verbatim>\<open>range(0, num_layers-2)\<close> with \<open>num_layers = len(weights) + 1\<close>, ran at
  least once. Otherwise the second \<^verbatim>\<open>grad\<close> raises \<^verbatim>\<open>RuntimeError\<close>: the differentiated
  tensor was not used in the graph.
\<close>

definition hidden_layers :: "pinn \<Rightarrow> nat" where
  "hidden_layers self = (length (weights self) + 1) - 2"

definition ux_sum_x :: "autograd \<Rightarrow> pinn \<Rightarrow> store \<Rightarrow> tensor \<Rightarrow> tensor \<Rightarrow> array list \<Rightarrow> real" where
  "ux_sum_x G self s x y vs =
     (case vs of [v] \<Rightarrow>
        (case net_du G self s (x\<lparr>data := v\<rparr>) y of Inl e \<Rightarrow> 0 | Inr d \<Rightarrow> tsum (data (fst d)))
      | _ \<Rightarrow> 0)"

definition uy_sum_y :: "autograd \<Rightarrow> pinn \<Rightarrow> store \<Rightarrow> tensor \<Rightarrow> tensor \<Rightarrow> array list \<Rightarrow> real" where
  "uy_sum_y G self s x y vs =
     (case vs of [v] \<Rightarrow>
        (case net_du G self s x (y\<lparr>data := v\<rparr>) of Inl e \<Rightarrow> 0 | Inr d \<Rightarrow> tsum (data (snd d)))
      | _ \<Rightarrow> 0)"

definition net_f :: "autograd \<Rightarrow> pinn \<Rightarrow> store \<Rightarrow> tensor \<Rightarrow> tensor \<Rightarrow> error + tensor" where
  "net_f G self s x y =
     ebind (net_du G self s x y) (\<lambda>d.
     ebind (autograd_grad G True
              \<lparr>denotes = uy_sum_y G self s x y, tracked = requires_grad (snd d),
               reaches = (grad_fn (snd d) \<and> 0 < hidden_layers self)\<rparr> [y]) (\<lambda>gy.
     ebind (getidx gy 0) (\<lambda>u_yy.
     ebind (autograd_grad G True
              \<lparr>denotes = ux_sum_x G self s x y, tracked = requires_grad (fst d),
               reaches = (grad_fn (fst d) \<and> 0 < hidden_layers self)\<rparr> [x]) (\<lambda>gx.
     ebind (getidx gx 0) (\<lambda>u_xx.
     ebind (torch_add u_yy u_xx) (\<lambda>f.
     Inr (set_requires_grad f)))))))"

subsection \<open>Prediction router: \<^verbatim>\<open>forward\<close>\<close>

text \<open>
  The local \<^verbatim>\<open>preds\<close> is bound only in the \<^verbatim>\<open>else\<close> branch: \<open>None\<close> is the unbound
  local, and using it raises \<^verbatim>\<open>UnboundLocalError\<close>.
\<close>

definition set_pred :: "preds option \<Rightarrow> string \<Rightarrow> tensor \<Rightarrow> error + preds option" where
  "set_pred p i v =
     (case p of None \<Rightarrow> Inl (UnboundLocalError ''preds'')
      | Some d \<Rightarrow> Inr (Some (AList.update i (Some v) d)))"

primrec forward_loop ::
  "autograd \<Rightarrow> pinn \<Rightarrow> store \<Rightarrow> tdict \<Rightarrow> tdict \<Rightarrow> string list \<Rightarrow> preds option \<Rightarrow> error + preds" where
  "forward_loop G self s x_tensors y_tensors [] p =
     (case p of None \<Rightarrow> Inl (UnboundLocalError ''preds'') | Some d \<Rightarrow> Inr d)"
| "forward_loop G self s x_tensors y_tensors (i # ks) p =
     (if i = ''nuem'' then
        ebind (getitem x_tensors i) (\<lambda>x.
        ebind (getitem y_tensors i) (\<lambda>y.
        ebind (net_du G self s x y) (\<lambda>d.
        ebind (set_pred p i (fst d)) (\<lambda>p'.
        forward_loop G self s x_tensors y_tensors ks p'))))
      else if i = ''f'' then
        ebind (getitem x_tensors i) (\<lambda>x.
        ebind (getitem y_tensors i) (\<lambda>y.
        ebind (net_f G self s x y) (\<lambda>f_pred.
        ebind (set_pred p i f_pred) (\<lambda>p'.
        forward_loop G self s x_tensors y_tensors ks p'))))
      else if i = ''u'' then
        ebind (getitem x_tensors i) (\<lambda>x.
        ebind (getitem y_tensors i) (\<lambda>y.
        ebind (net_u self s x y) (\<lambda>u_pred.
        ebind (set_pred p i u_pred) (\<lambda>p'.
        forward_loop G self s x_tensors y_tensors ks p'))))
      else if i = ''diri'' then
        ebind (getitem x_tensors i) (\<lambda>x.
        ebind (getitem y_tensors i) (\<lambda>y.
        ebind (net_u self s x y) (\<lambda>diri_pred.
        ebind (set_pred p i diri_pred) (\<lambda>p'.
        forward_loop G self s x_tensors y_tensors ks p'))))
      else forward_loop G self s x_tensors y_tensors ks p)"

definition forward ::
  "autograd \<Rightarrow> pinn \<Rightarrow> store \<Rightarrow> tdict \<Rightarrow> tdict \<Rightarrow> string list option \<Rightarrow> error + preds" where
  "forward G self s x_tensors y_tensors keys =
     (case keys of
        None \<Rightarrow> forward_loop G self s x_tensors y_tensors (map fst x_tensors) None
      | Some ks \<Rightarrow>
          forward_loop G self s x_tensors y_tensors ks
            (Some (fold (\<lambda>i d. AList.update i None d) ks [])))"

subsection \<open>Loss assembler: \<^verbatim>\<open>loss_func\<close>\<close>

text \<open>
  \<^verbatim>\<open>pred_dict[i] - true_dict[i]\<close>: \<^verbatim>\<open>None\<close> minus a tensor is a \<^verbatim>\<open>TypeError\<close>. The
  loss, a 0-dimensional tensor, is its value: a number or \<^verbatim>\<open>nan\<close>.
\<close>

definition minus_target :: "tensor option \<Rightarrow> tensor \<Rightarrow> error + tensor" where
  "minus_target p t = (case p of None \<Rightarrow> Inl TypeError | Some v \<Rightarrow> torch_sub v t)"

primrec loss_loop ::
  "preds \<Rightarrow> tdict \<Rightarrow> (string \<times> real) list \<Rightarrow> string list \<Rightarrow> scalar \<Rightarrow> error + scalar" where
  "loss_loop pd td w [] acc = Inr acc"
| "loss_loop pd td w (i # ks) acc =
     ebind (getitem pd i) (\<lambda>p.
     ebind (getitem td i) (\<lambda>t.
     ebind (minus_target p t) (\<lambda>res.
     ebind (getitem w i) (\<lambda>wi.
     loss_loop pd td w ks (accumulate acc (scale wi (mean (pow2 (data res)))))))))"

definition loss_func :: "preds \<Rightarrow> tdict \<Rightarrow> (string \<times> real) list option \<Rightarrow> error + scalar" where
  "loss_func pd td w =
     (let keys = map fst pd;
          w' = (case w of None \<Rightarrow> fold (\<lambda>i d. AList.update i 1 d) keys [] | Some d \<Rightarrow> d)
      in loss_loop pd td w' keys (Num 0))"

subsection \<open>Gradient attachment: \<^verbatim>\<open>customized_backward\<close>\<close>

text \<open>
  \<open>out\<close> is the graph of the loss: it denotes the loss as a function of the values of
  \<open>params\<close>. The loop
  \<^verbatim>\<open>for vid in range(len(params)): params[vid].grad = grads[vid]\<close> writes the
  \<^verbatim>\<open>.grad\<close> slot of the tensor object at each address.
\<close>

definition set_grad :: "ref \<Rightarrow> array \<Rightarrow> store \<Rightarrow> store" where
  "set_grad p g s = s\<lparr>cells := (cells s)(p := (cells s p)\<lparr>grad := Some g\<rparr>)\<rparr>"

primrec assign_grads :: "ref list \<Rightarrow> tensor list \<Rightarrow> nat list \<Rightarrow> store \<Rightarrow> error + store" where
  "assign_grads params grads [] s = Inr s"
| "assign_grads params grads (vid # vs) s =
     ebind (getidx grads vid) (\<lambda>g.
     assign_grads params grads vs (set_grad (params ! vid) (data g) s))"

definition customized_backward ::
  "autograd \<Rightarrow> graph \<Rightarrow> ref list \<Rightarrow> store \<Rightarrow> error + tensor list \<times> store" where
  "customized_backward G out params s =
     ebind (autograd_grad G False out (map (cells s) params)) (\<lambda>grads.
     ebind (assign_grads params grads [0..<length params] s) (\<lambda>s'.
     Inr (grads, s')))"

subsection \<open>Optimizer driver\<close>

definition unzip_loop :: "train_dict \<Rightarrow> string list \<Rightarrow> error + tdict \<times> tdict \<times> tdict" where
  "unzip_loop td keys =
     fold (\<lambda>i r. ebind r (\<lambda>(xt, yt, tt). ebind (getitem td i) (\<lambda>(x, y, t).
             Inr (AList.update i x xt, AList.update i y yt, AList.update i t tt))))
       keys (Inr ([], [], []))"

definition unzip_train_dict :: "train_dict \<Rightarrow> string list option \<Rightarrow> error + tdict \<times> tdict \<times> tdict" where
  "unzip_train_dict td keys =
     unzip_loop td (case keys of None \<Rightarrow> map fst td | Some ks \<Rightarrow> ks)"

definition callback :: "pinn \<Rightarrow> scalar \<Rightarrow> pinn" where
  "callback self v = self\<lparr>loss_list := loss_list self @ [v]\<rparr>"

text \<open>
  The optimizer is PyTorch's. It holds the parameter tensors and nothing of the model
  object, so each of its methods is a function on the store and on the optimizer's own
  state \<open>'o\<close>: \<^verbatim>\<open>zero_grad()\<close>, \<^verbatim>\<open>step()\<close>, and for \<^verbatim>\<open>step(closure)\<close> the decision it takes
  after each evaluation of the closure: stop, or update the parameters and evaluate
  again, at most \<open>budget\<close> more times.
\<close>

record 'o optimizer =
  zero_grad :: "store \<Rightarrow> store"
  step :: "'o \<Rightarrow> store \<Rightarrow> error + 'o \<times> store"
  plan :: "'o \<Rightarrow> scalar \<Rightarrow> store \<Rightarrow> ('o \<times> store) option"
  budget :: nat

type_synonym loss_fn = "preds \<Rightarrow> tdict \<Rightarrow> error + scalar"

definition roles3 :: "string list" where
  "roles3 = [''diri'', ''nuem'', ''f'']"

text \<open>
  The loss of one evaluation as a function of the parameter values: what
  \<^verbatim>\<open>customized_backward\<close> differentiates. A loss function is taken to compute its
  scalar from the predictions, as \<^verbatim>\<open>loss_func\<close> does, which ends with
  \<^verbatim>\<open>loss.requires_grad_()\<close>: the loss requires gradients, and its graph reaches every
  weight and bias through the prediction of the role \<open>diri\<close>.
\<close>

definition set_values :: "ref list \<Rightarrow> array list \<Rightarrow> store \<Rightarrow> store" where
  "set_values params vals s =
     fold (\<lambda>(p, v) s'. s'\<lparr>cells := (cells s')(p := (cells s' p)\<lparr>data := v\<rparr>)\<rparr>) (zip params vals) s"

definition loss_at ::
  "autograd \<Rightarrow> loss_fn \<Rightarrow> pinn \<Rightarrow> store \<Rightarrow> tdict \<Rightarrow> tdict \<Rightarrow> tdict \<Rightarrow> array list \<Rightarrow> real" where
  "loss_at G lf self s xt yt tt vals =
     (case forward G self (set_values (weights self @ biases self) vals s) xt yt (Some roles3) of
        Inl e \<Rightarrow> 0
      | Inr pd \<Rightarrow> (case lf pd tt of Inr (Num v) \<Rightarrow> v | _ \<Rightarrow> 0))"

definition loss_graph ::
  "autograd \<Rightarrow> loss_fn \<Rightarrow> pinn \<Rightarrow> store \<Rightarrow> tdict \<Rightarrow> tdict \<Rightarrow> tdict \<Rightarrow> graph" where
  "loss_graph G lf self s xt yt tt =
     \<lparr>denotes = loss_at G lf self s xt yt tt, tracked = True, reaches = True\<rparr>"

text \<open>
  One loss evaluation, the body shared by the closure of \<^verbatim>\<open>train_LBFGS\<close> and the loop
  of \<^verbatim>\<open>train\<close>: zero the gradients, predict, compute the loss, record it, attach the
  gradients. The progress line printed at every 100th evaluation changes no state and
  is left out.
\<close>

definition evaluate ::
  "autograd \<Rightarrow> loss_fn \<Rightarrow> 'o optimizer \<Rightarrow> tdict \<Rightarrow> tdict \<Rightarrow> tdict \<Rightarrow> pinn \<times> store
     \<Rightarrow> error + scalar \<times> pinn \<times> store" where
  "evaluate G lf opt xt yt tt st =
     (let self = fst st; s1 = zero_grad opt (snd st) in
      ebind (forward G self s1 xt yt (Some roles3)) (\<lambda>pd.
      ebind (lf pd tt) (\<lambda>v.
      let self1 = callback self v in
      ebind (customized_backward G (loss_graph G lf self1 s1 xt yt tt)
               (weights self1 @ biases self1) s1) (\<lambda>gs.
      Inr (v, self1, snd gs)))))"

text \<open>
  \<^verbatim>\<open>optimizer.step(closure)\<close>: the closure is evaluated once, then again after every
  update the optimizer decides on, while the budget lasts. The number returned counts
  the evaluations (the optimizer's \<^verbatim>\<open>func_evals\<close>).
\<close>

primrec step_closure ::
  "nat \<Rightarrow> 'o optimizer \<Rightarrow> (pinn \<times> store \<Rightarrow> error + scalar \<times> pinn \<times> store) \<Rightarrow> 'o \<Rightarrow> pinn \<times> store
     \<Rightarrow> error + nat \<times> 'o \<times> pinn \<times> store" where
  "step_closure 0 opt closure ost st =
     ebind (closure st) (\<lambda>(v, self1, s1).
       case plan opt ost v s1 of
         None \<Rightarrow> Inr (1, ost, self1, s1)
       | Some (ost', s2) \<Rightarrow> Inr (1, ost', self1, s2))"
| "step_closure (Suc n) opt closure ost st =
     ebind (closure st) (\<lambda>(v, self1, s1).
       case plan opt ost v s1 of
         None \<Rightarrow> Inr (1, ost, self1, s1)
       | Some (ost', s2) \<Rightarrow>
           ebind (step_closure n opt closure ost' (self1, s2)) (\<lambda>(k, r). Inr (Suc k, r)))"

definition finish :: "autograd \<Rightarrow> loss_fn \<Rightarrow> tdict \<Rightarrow> tdict \<Rightarrow> tdict \<Rightarrow> pinn \<Rightarrow> store \<Rightarrow> error + pinn" where
  "finish G lf xt yt tt self s =
     ebind (forward G self s xt yt (Some roles3)) (\<lambda>pd.
     let self1 = self\<lparr>pred_dict := Some pd\<rparr> in
     ebind (lf pd tt) (\<lambda>v.
     Inr (self1\<lparr>loss := Some v\<rparr>)))"

definition train_LBFGS ::
  "autograd \<Rightarrow> pinn \<Rightarrow> store \<Rightarrow> train_dict \<Rightarrow> loss_fn \<Rightarrow> 'o optimizer \<Rightarrow> 'o
     \<Rightarrow> error + nat \<times> 'o \<times> pinn \<times> store" where
  "train_LBFGS G self s td lf opt ost =
     ebind (unzip_train_dict td None) (\<lambda>(xt, yt, tt).
     ebind (step_closure (budget opt) opt (evaluate G lf opt xt yt tt) ost (self, s))
       (\<lambda>(k, ost', self1, s1).
     ebind (finish G lf xt yt tt self1 s1) (\<lambda>self2.
     Inr (k, ost', self2, s1))))"

text \<open>
  \<^verbatim>\<open>train\<close> unpacks \<^verbatim>\<open>train_dict\<close>, which is none of its parameters: the name is looked
  up among the module's globals (\<open>None\<close>: no such global), and \<^verbatim>\<open>u_data\<close>, \<^verbatim>\<open>f_data\<close>
  and \<^verbatim>\<open>bc_data\<close> are never read. \<^verbatim>\<open>range(epoch)\<close> is empty for a negative \<open>epoch\<close>.
\<close>

primrec train_loop ::
  "nat \<Rightarrow> autograd \<Rightarrow> loss_fn \<Rightarrow> 'o optimizer \<Rightarrow> tdict \<Rightarrow> tdict \<Rightarrow> tdict \<Rightarrow> 'o \<Rightarrow> pinn \<times> store
     \<Rightarrow> error + 'o \<times> pinn \<times> store" where
  "train_loop 0 G lf opt xt yt tt ost st = Inr (ost, st)"
| "train_loop (Suc n) G lf opt xt yt tt ost st =
     ebind (evaluate G lf opt xt yt tt st) (\<lambda>(v, self1, s1).
     ebind (step opt ost s1) (\<lambda>(ost', s2).
     train_loop n G lf opt xt yt tt ost' (self1, s2)))"

definition train ::
  "autograd \<Rightarrow> train_dict option \<Rightarrow> pinn \<Rightarrow> store \<Rightarrow> int \<Rightarrow> 'd \<Rightarrow> 'd \<Rightarrow> 'd \<Rightarrow> loss_fn
     \<Rightarrow> 'o optimizer \<Rightarrow> 'o \<Rightarrow> error + 'o \<times> pinn \<times> store" where
  "train G global_train_dict self s epoch u_data f_data bc_data lf opt ost =
     (case global_train_dict of
        None \<Rightarrow> Inl (NameError ''train_dict'')
      | Some td \<Rightarrow>
          ebind (unzip_train_dict td None) (\<lambda>(xt, yt, tt).
          ebind (train_loop (nat epoch) G lf opt xt yt tt ost (self, s)) (\<lambda>(ost', self1, s1).
          ebind (finish G lf xt yt tt self1 s1) (\<lambda>self2.
          Inr (ost', self2, s1)))))"

subsection \<open>Coordinate normalizer: \<^verbatim>\<open>coor_shift\<close>\<close>

text \<open>
  \<open>X\<close> is an \<open>(N, d)\<close> numpy array and the bounds are 1-dimensional arrays, which
  broadcast against it as single rows. Dividing by zero raises nothing in numpy (the
  result is \<^verbatim>\<open>inf\<close> or \<^verbatim>\<open>nan\<close>); here it is HOL's \<open>x / 0 = 0\<close>.
\<close>

definition row :: "real list \<Rightarrow> array" where
  "row v = Array (length v) [v]"

definition coor_shift :: "array \<Rightarrow> real list \<Rightarrow> real list \<Rightarrow> error + array" where
  "coor_shift X lbs ubs =
     ebind (broadcast ValueError (\<lambda>u v. u - v) X (row lbs)) (\<lambda>A.
     ebind (broadcast ValueError (\<lambda>u v. u - v) (row ubs) (row lbs)) (\<lambda>D.
     ebind (broadcast ValueError (\<lambda>u v. u / v) (map_array (\<lambda>v. 2 * v) A) D) (\<lambda>Q.
     Inr (map_array (\<lambda>v. v - 1) Q))))"

section \<open>Definitions the statements use\<close>

subsection \<open>The network as the specification describes it\<close>

text \<open>
  One layer is affine: \<open>H W + b\<close> with the bias row added to every row. The inputs are
  the two columns \<open>x\<close> and \<open>y\<close> side by side; every pair but the last is followed by
  \<open>tanh\<close>; the last pair is affine only. \<open>layer_shapes dims\<close> says that the shapes of
  the weights and biases chain through the widths \<open>dims\<close>.
\<close>

definition affine :: "array \<Rightarrow> array \<Rightarrow> array \<Rightarrow> array" where
  "affine H W b =
     mk (nrows H) (ncols W) (\<lambda>i j. (\<Sum>k<ncols H. entry H i k * entry W k j) + entry b 0 j)"

definition columns :: "array \<Rightarrow> array \<Rightarrow> array" where
  "columns x y = mk (nrows x) 2 (\<lambda>i j. if j = 0 then entry x i 0 else entry y i 0)"

definition hidden :: "array \<Rightarrow> array \<times> array \<Rightarrow> array" where
  "hidden H Wb = map_array tanh (affine H (fst Wb) (snd Wb))"

definition mlp :: "array \<Rightarrow> array \<Rightarrow> array list \<Rightarrow> array list \<Rightarrow> array" where
  "mlp x y Ws bs =
     affine (foldl hidden (columns x y) (zip (butlast Ws) (butlast bs))) (last Ws) (last bs)"

definition layer_shapes :: "nat list \<Rightarrow> array list \<Rightarrow> array list \<Rightarrow> bool" where
  "layer_shapes dims Ws bs =
     (length bs = length Ws \<and> length dims = length Ws + 1 \<and>
      (\<forall>l < length Ws. shape (Ws ! l) = (dims ! l, dims ! (l + 1)) \<and>
                       shape (bs ! l) = (1, dims ! (l + 1))))"


subsection \<open>The roles of the prediction router\<close>

text \<open>The four roles, and the evaluator the specification assigns to each.\<close>

definition known :: "string \<Rightarrow> bool" where
  "known i = (i = ''nuem'' \<or> i = ''f'' \<or> i = ''u'' \<or> i = ''diri'')"

definition evaluator :: "autograd \<Rightarrow> pinn \<Rightarrow> store \<Rightarrow> string \<Rightarrow> tensor \<Rightarrow> tensor \<Rightarrow> error + tensor" where
  "evaluator G self s i x y =
     (if i = ''nuem'' then ebind (net_du G self s x y) (\<lambda>d. Inr (fst d))
      else if i = ''f'' then net_f G self s x y
      else net_u self s x y)"


subsection \<open>The loss as the specification describes it\<close>

text \<open>
  The mean squared difference of two arrays of one shape, the weight of a role (1 when
  no weights are given), and the term of one role of the prediction bundle.
  \<open>role_ok\<close> says that a role has a prediction with at least one element, a target
  of the same shape and a weight.
\<close>

definition mse :: "array \<Rightarrow> array \<Rightarrow> real" where
  "mse P T =
     (\<Sum>i<nrows P. \<Sum>j<ncols P. (entry P i j - entry T i j) ^ 2) / real (nrows P * ncols P)"

definition weight_of :: "(string \<times> real) list option \<Rightarrow> string \<Rightarrow> real" where
  "weight_of w k =
     (case w of None \<Rightarrow> 1 | Some d \<Rightarrow> (case map_of d k of None \<Rightarrow> 0 | Some v \<Rightarrow> v))"

definition role_term :: "tdict \<Rightarrow> (string \<times> real) list option \<Rightarrow> string \<times> tensor option \<Rightarrow> real" where
  "role_term td w e =
     (case (snd e, map_of td (fst e)) of
        (Some P, Some T) \<Rightarrow> weight_of w (fst e) * mse (data P) (data T)
      | _ \<Rightarrow> 0)"

definition role_ok :: "tdict \<Rightarrow> (string \<times> real) list option \<Rightarrow> string \<times> tensor option \<Rightarrow> bool" where
  "role_ok td w e =
     (\<exists>P T. snd e = Some P \<and> map_of td (fst e) = Some T \<and> shape (data T) = shape (data P) \<and>
            0 < nrows (data P) * ncols (data P) \<and>
            (case w of None \<Rightarrow> True | Some d \<Rightarrow> map_of d (fst e) \<noteq> None))"

definition weights_dict :: "preds \<Rightarrow> (string \<times> real) list option \<Rightarrow> (string \<times> real) list" where
  "weights_dict pd w =
     (case w of None \<Rightarrow> fold (\<lambda>i d. AList.update i 1 d) (map fst pd) [] | Some d \<Rightarrow> d)"


subsection \<open>Gradients and second derivatives\<close>

text \<open>
  \<open>put a i j t\<close> is the array \<open>a\<close> with \<open>t\<close> at \<open>(i, j)\<close>; \<open>g\<close> is the gradient of \<open>F\<close>
  at \<open>a\<close> when each entry of \<open>g\<close> is the derivative of \<open>F\<close> in that entry of \<open>a\<close>;
  \<open>gradients out vals gs\<close> says that \<open>gs\<close> holds, position by position, the gradient of
  \<open>out\<close> in each of the arrays \<open>vals\<close>.
  \<open>grad_ok\<close> says that PyTorch's differentiation returns the gradient;
  \<open>exact_first\<close> and \<open>exact_second\<close> say so for the scalars \<^verbatim>\<open>net_du\<close> and \<^verbatim>\<open>net_f\<close>
  differentiate. \<open>point_u self s p q\<close> is the network's output at the point \<open>(p, q)\<close>,
  and \<open>scalar_net\<close> says that the network maps two inputs to one output.
\<close>

definition put :: "array \<Rightarrow> nat \<Rightarrow> nat \<Rightarrow> real \<Rightarrow> array" where
  "put a i j t = mk (nrows a) (ncols a) (\<lambda>i' j'. if i' = i \<and> j' = j then t else entry a i' j')"

definition is_col :: "nat \<Rightarrow> array \<Rightarrow> bool" where
  "is_col N a = (shape a = (N, 1) \<and> wf_array a)"

definition point :: "real \<Rightarrow> array" where
  "point p = Array 1 [[p]]"

definition point_u :: "pinn \<Rightarrow> store \<Rightarrow> real \<Rightarrow> real \<Rightarrow> real" where
  "point_u self s p q =
     entry (mlp (point p) (point q) (map data (the_weights self s)) (map data (the_biases self s))) 0 0"

definition row_of :: "array \<Rightarrow> nat \<Rightarrow> array" where
  "row_of a i = mk 1 (ncols a) (\<lambda>i' j. entry a i j)"

definition is_gradient :: "(array \<Rightarrow> real) \<Rightarrow> array \<Rightarrow> array \<Rightarrow> bool" where
  "is_gradient F a g =
     (shape g = shape a \<and> wf_array g \<and>
      (\<forall>i < nrows a. \<forall>j < ncols a.
         ((\<lambda>t. F (put a i j t)) has_real_derivative entry g i j) (at (entry a i j))))"


definition grad_ok :: "autograd \<Rightarrow> (array list \<Rightarrow> real) \<Rightarrow> array \<Rightarrow> bool" where
  "grad_ok G out a = (\<exists>g. G out [a] = Inr [g] \<and> is_gradient (\<lambda>v. out [v]) a g)"

definition scalar_net :: "pinn \<Rightarrow> store \<Rightarrow> bool" where
  "scalar_net self s =
     (the_weights self s \<noteq> [] \<and>
      (\<exists>dims. layer_shapes dims (map data (the_weights self s)) (map data (the_biases self s)) \<and>
              dims ! 0 = 2 \<and> last dims = 1))"

definition exact_first :: "autograd \<Rightarrow> pinn \<Rightarrow> store \<Rightarrow> tensor \<Rightarrow> tensor \<Rightarrow> nat \<Rightarrow> bool" where
  "exact_first G self s x y N =
     (\<forall>a b. is_col N a \<and> is_col N b \<longrightarrow>
        grad_ok G (u_sum_x self s x (y\<lparr>data := b\<rparr>)) a \<and>
        grad_ok G (u_sum_y self s (x\<lparr>data := a\<rparr>) y) b)"

definition exact_second :: "autograd \<Rightarrow> pinn \<Rightarrow> store \<Rightarrow> tensor \<Rightarrow> tensor \<Rightarrow> bool" where
  "exact_second G self s x y =
     (grad_ok G (ux_sum_x G self s x y) (data x) \<and> grad_ok G (uy_sum_y G self s x y) (data y))"

definition second_derivative :: "(real \<Rightarrow> real) \<Rightarrow> real \<Rightarrow> real \<Rightarrow> bool" where
  "second_derivative h t d =
     (\<exists>h'. (\<forall>r. (h has_real_derivative h' r) (at r)) \<and> (h' has_real_derivative d) (at t))"

text \<open>The first and the second derivative of \<open>tanh\<close>.\<close>

definition dtanh :: "real \<Rightarrow> real" where
  "dtanh t = 1 - (tanh t)\<^sup>2"

definition ddtanh :: "real \<Rightarrow> real" where
  "ddtanh t = - 2 * tanh t * (1 - (tanh t)\<^sup>2)"

definition usum :: "pinn \<Rightarrow> store \<Rightarrow> nat \<Rightarrow> array \<Rightarrow> array \<Rightarrow> real" where
  "usum self s N a b = (\<Sum>i<N. point_u self s (entry a i 0) (entry b i 0))"


subsection \<open>Concrete inputs\<close>

text \<open>
  An empty store and an empty model; a gradient-tracking leaf tensor given by its
  rows; and four stand-ins for differentiation: one that always raises, one that
  hands back the values it is given, the central difference quotient, which is exact
  on polynomials of degree 2 in one entry, and exact differentiation, which returns
  the partial derivative in every entry.
\<close>

definition store0 :: store where
  "store0 = \<lparr>cells = (\<lambda>a. result (Array 0 []) False), fresh = 0\<rparr>"

definition leaf :: "real list list \<Rightarrow> nat \<Rightarrow> tensor" where
  "leaf rs c = new_leaf (Array c rs) True"

definition self0 :: pinn where
  "self0 = \<lparr>layers = [], weights = [], biases = [], loss = None, loss_list = [],
            pred_dict = None\<rparr>"

definition no_autograd :: autograd where
  "no_autograd out vs = Inl RuntimeError"

definition echo_autograd :: autograd where
  "echo_autograd out vs = Inr vs"


definition partial :: "(array list \<Rightarrow> real) \<Rightarrow> array list \<Rightarrow> nat \<Rightarrow> nat \<Rightarrow> nat \<Rightarrow> real" where
  "partial out vs k i j =
     (THE d. ((\<lambda>t. out (vs[k := put (vs ! k) i j t])) has_real_derivative d)
               (at (entry (vs ! k) i j)))"

definition ideal_autograd :: autograd where
  "ideal_autograd out vs =
     Inr (map (\<lambda>k. mk (nrows (vs ! k)) (ncols (vs ! k)) (partial out vs k)) [0..<length vs])"

definition pd0 :: preds where
  "pd0 = [(''diri'', Some (leaf [[1]] 1))]"

definition td0 :: tdict where
  "td0 = [(''diri'', leaf [[3]] 1), (''u'', leaf [[0]] 1)]"




subsection \<open>A concrete training run\<close>

text \<open>
  A one-layer network \<open>u = x + y\<close> with its two parameters at the addresses 0 and 1,
  and a network \<open>u = tanh (x + y)\<close> with one hidden layer of one unit, its parameters
  at the addresses the initialiser gives them; one point per role, an optimizer that
  stops after the first evaluation, and the model's own loss function.
\<close>

definition net_store :: store where
  "net_store = \<lparr>cells = (\<lambda>a. if a = 0 then leaf [[1], [1]] 1 else leaf [[0]] 1), fresh = 2\<rparr>"

definition net_self :: pinn where
  "net_self = \<lparr>layers = [2, 1], weights = [0], biases = [1], loss = None, loss_list = [],
               pred_dict = None\<rparr>"

definition tanh_store :: store where
  "tanh_store =
     \<lparr>cells = (\<lambda>a. if a = 0 then leaf [[1], [1]] 1 else if a = 2 then leaf [[1]] 1
                     else leaf [[0]] 1),
      fresh = 4\<rparr>"

definition tanh_self :: pinn where
  "tanh_self = \<lparr>layers = [2, 1, 1], weights = [0, 2], biases = [1, 3], loss = None,
                loss_list = [], pred_dict = None\<rparr>"

definition pt2 :: tensor where
  "pt2 = leaf [[0], [1]] 1"

definition pt :: tensor where
  "pt = leaf [[0]] 1"

definition out0 :: tensor where
  "out0 = result (Array 1 [[0]]) True"

definition td1 :: train_dict where
  "td1 = [(''diri'', pt, pt, pt), (''nuem'', pt, pt, pt), (''f'', pt, pt, pt)]"

definition opt1 :: "unit optimizer" where
  "opt1 = \<lparr>zero_grad = (\<lambda>s. s), step = (\<lambda>ost s. Inr (ost, s)), plan = (\<lambda>ost v s. None),
            budget = 0\<rparr>"

definition lf1 :: loss_fn where
  "lf1 pd tt = loss_func pd tt None"

definition xt1 :: tdict where
  "xt1 = [(''diri'', pt), (''nuem'', pt), (''f'', pt)]"

definition pd1 :: preds where
  "pd1 = [(''diri'', Some out0), (''nuem'', Some out0), (''f'', Some out0)]"

definition net_ok :: "pinn \<Rightarrow> store \<Rightarrow> bool" where
  "net_ok self s =
     (weights self = [0, 2] \<and> biases self = [1, 3] \<and>
      data (cells s 0) = Array 1 [[1], [1]] \<and> data (cells s 1) = Array 1 [[0]] \<and>
      data (cells s 2) = Array 1 [[1]] \<and> data (cells s 3) = Array 1 [[0]] \<and>
      (\<forall>a < 4. requires_grad (cells s a)))"


section \<open>Basic facts about arrays\<close>

lemma nrows_mk [simp]: "nrows (mk r c f) = r"
  by (simp add: nrows_def mk_def)

lemma ncols_mk [simp]: "ncols (mk r c f) = c"
  by (simp add: mk_def)

lemma shape_mk [simp]: "shape (mk r c f) = (r, c)"
  by (simp add: shape_def)

lemma wf_mk [simp]: "wf_array (mk r c f)"
  by (simp add: wf_array_def mk_def list_all_iff)

lemma entry_mk [simp]: "i < r \<Longrightarrow> j < c \<Longrightarrow> entry (mk r c f) i j = f i j"
  by (simp add: entry_def mk_def)

lemma array_eqI:
  assumes "wf_array a" "wf_array b" "shape a = shape b"
    and "\<And>i j. i < nrows a \<Longrightarrow> j < ncols a \<Longrightarrow> entry a i j = entry b i j"
  shows "a = b"
proof -
  have len: "length (rows a) = length (rows b)" and nc: "ncols a = ncols b"
    using assms(3) by (simp_all add: shape_def nrows_def)
  have "rows a = rows b"
  proof (rule nth_equalityI[OF len])
    fix i assume i: "i < length (rows a)"
    have la: "length (rows a ! i) = ncols a"
      using assms(1) i by (simp add: wf_array_def list_all_length)
    have lb: "length (rows b ! i) = ncols a"
      using assms(2) i len nc by (simp add: wf_array_def list_all_length)
    show "rows a ! i = rows b ! i"
    proof (rule nth_equalityI)
      show "length (rows a ! i) = length (rows b ! i)" using la lb by simp
    next
      fix j assume "j < length (rows a ! i)"
      then show "rows a ! i ! j = rows b ! i ! j"
        using assms(4)[of i j] i la by (simp add: entry_def nrows_def)
    qed
  qed
  with nc show ?thesis by (simp add: array.expand)
qed

lemma mk_cong:
  "(\<And>i j. i < r \<Longrightarrow> j < c \<Longrightarrow> f i j = g i j) \<Longrightarrow> mk r c f = mk r c g"
  by (simp add: mk_def)

section \<open>The parameter store\<close>

lemma Variable_eq:
  assumes "Variable v rg s = (a, s')"
  shows "a = fresh s" and "fresh s' = Suc (fresh s)" and "cells s' (fresh s) = new_leaf v rg"
    and "p \<noteq> fresh s \<Longrightarrow> cells s' p = cells s p"
  using assms by (auto simp: Variable_def)

lemma xavier_init_eq:
  assumes "xavier_init (r, c) g s = Inr (a, g', s')"
  shows "a = fresh s" and "fresh s' = Suc (fresh s)"
    and "shape (data (cells s' (fresh s))) = (r, c)"
    and "wf_array (data (cells s' (fresh s)))"
    and "requires_grad (cells s' (fresh s))"
    and "p \<noteq> fresh s \<Longrightarrow> cells s' p = cells s p"
  using assms
  by (auto simp: xavier_init_def xavier_normal_def Variable_def Let_def empty_def new_leaf_def
      ebind_def split: prod.splits if_splits)

lemma xavier_init_returns:
  assumes "0 < r + c"
  shows "\<exists>a g' s'. xavier_init (r, c) g s = Inr (a, g', s')"
  using assms
  by (auto simp: xavier_init_def xavier_normal_def Variable_def Let_def empty_def ebind_def)

lemma xavier_init_raises:
  assumes "r + c = 0"
  shows "xavier_init (r, c) g s = Inl ZeroDivisionError"
  using assms
  by (simp add: xavier_init_def xavier_normal_def Let_def empty_def ebind_def)

lemma init_loop_returns:
  "\<forall>k < length ls. 0 < lay ! (ls ! k) + lay ! (ls ! k + 1) \<Longrightarrow>
   \<exists>r. init_loop lay ls ws bs g s = Inr r"
proof (induction ls arbitrary: ws bs g s)
  case Nil
  then show ?case by simp
next
  case (Cons l ls)
  have "0 < lay ! l + lay ! (l + 1)" using Cons.prems by auto
  from xavier_init_returns[OF this] obtain W g1 s1 where
    x: "xavier_init (lay ! l, lay ! (l + 1)) g s = Inr (W, g1, s1)" by blast
  obtain b s2 where v: "Variable (zeros 1 (lay ! (l + 1))) True s1 = (b, s2)"
    by (metis prod.exhaust)
  have "\<forall>k < length ls. 0 < lay ! (ls ! k) + lay ! (ls ! k + 1)" using Cons.prems by auto
  from Cons.IH[OF this] obtain r where "init_loop lay ls (ws @ [W]) (bs @ [b]) g1 s2 = Inr r"
    by blast
  then show ?case using x v by (intro exI[of _ r]) (simp add: ebind_def)
qed

lemma init_loop_raises_head:
  assumes "lay ! l + lay ! (l + 1) = 0"
  shows "init_loop lay (l # ls) ws bs g s = Inl ZeroDivisionError"
  using xavier_init_raises[OF assms] by (simp add: ebind_def)

lemma init_loop_raises_tail:
  assumes "0 < lay ! l + lay ! (l + 1)"
    and "\<And>ws bs g s. init_loop lay ls ws bs g s = Inl ZeroDivisionError"
  shows "init_loop lay (l # ls) ws bs g s = Inl ZeroDivisionError"
proof -
  from xavier_init_returns[OF assms(1)] obtain W g1 s1 where
    x: "xavier_init (lay ! l, lay ! (l + 1)) g s = Inr (W, g1, s1)" by blast
  obtain b s2 where v: "Variable (zeros 1 (lay ! (l + 1))) True s1 = (b, s2)"
    by (metis prod.exhaust)
  show ?thesis using assms(2)[of "ws @ [W]" "bs @ [b]" g1 s2] x v by (simp add: ebind_def)
qed

lemma zero_pair_tail:
  assumes "k < length (l # ls)" and "lay ! ((l # ls) ! k) + lay ! ((l # ls) ! k + 1) = 0"
    and "lay ! l + lay ! (l + 1) \<noteq> 0"
  shows "\<exists>k < length ls. lay ! (ls ! k) + lay ! (ls ! k + 1) = 0"
proof -
  have "k \<noteq> 0" using assms(2,3) by (cases k) simp_all
  then obtain k' where k': "k = Suc k'" by (cases k) simp_all
  have "k' < length ls \<and> lay ! (ls ! k') + lay ! (ls ! k' + 1) = 0"
    using assms(1,2) unfolding k' by simp
  then show ?thesis ..
qed

lemma init_loop_raises:
  "\<exists>k < length ls. lay ! (ls ! k) + lay ! (ls ! k + 1) = 0 \<Longrightarrow>
   init_loop lay ls ws bs g s = Inl ZeroDivisionError"
proof (induction ls arbitrary: ws bs g s)
  case Nil
  then show ?case by simp
next
  case (Cons l ls)
  show ?case
  proof (cases "lay ! l + lay ! (l + 1) = 0")
    case True
    then show ?thesis by (rule init_loop_raises_head)
  next
    case False
    from Cons.prems obtain k where
      k: "k < length (l # ls) \<and> lay ! ((l # ls) ! k) + lay ! ((l # ls) ! k + 1) = 0" ..
    have ex: "\<exists>k < length ls. lay ! (ls ! k) + lay ! (ls ! k + 1) = 0"
      by (rule zero_pair_tail[OF conjunct1[OF k] conjunct2[OF k] False])
    have pos: "0 < lay ! l + lay ! (l + 1)" using False by simp
    show ?thesis
      by (rule init_loop_raises_tail[OF pos]) (rule Cons.IH[OF ex])
  qed
qed

lemma init_loop_inv:
  "init_loop lay ls ws bs g s = Inr ((ws', bs'), g', s') \<Longrightarrow>
   fresh s' = fresh s + 2 * length ls \<and>
   (\<forall>p < fresh s. cells s' p = cells s p) \<and>
   ws' = ws @ map (\<lambda>k. fresh s + 2 * k) [0..<length ls] \<and>
   bs' = bs @ map (\<lambda>k. fresh s + 2 * k + 1) [0..<length ls] \<and>
   (\<forall>k < length ls.
      shape (data (cells s' (fresh s + 2 * k))) = (lay ! (ls ! k), lay ! (ls ! k + 1)) \<and>
      wf_array (data (cells s' (fresh s + 2 * k))) \<and>
      requires_grad (cells s' (fresh s + 2 * k)) \<and>
      cells s' (fresh s + 2 * k + 1) = new_leaf (zeros 1 (lay ! (ls ! k + 1))) True)"
proof (induction ls arbitrary: ws bs g s)
  case Nil
  then show ?case by simp
next
  case (Cons l ls)
  from Cons.prems obtain W g1 s1 where
    x: "xavier_init (lay ! l, lay ! (l + 1)) g s = Inr (W, g1, s1)"
    by (cases "xavier_init (lay ! l, lay ! (l + 1)) g s") (auto simp: ebind_def)
  obtain b s2 where v: "Variable (zeros 1 (lay ! (l + 1))) True s1 = (b, s2)"
    by (metis prod.exhaust)
  from Cons.prems x v
  have rest: "init_loop lay ls (ws @ [W]) (bs @ [b]) g1 s2 = Inr ((ws', bs'), g', s')"
    by (simp add: ebind_def)
  note X = xavier_init_eq[OF x] and V = Variable_eq[OF v] and IH = Cons.IH[OF rest]
  have f1: "fresh s1 = fresh s + 1" using X(2) by simp
  have f2: "fresh s2 = fresh s + 2" using V(2) f1 by simp
  have c0: "cells s2 (fresh s) = cells s1 (fresh s)" using V(4)[of "fresh s"] f1 by simp
  have keep: "\<forall>p < fresh s. cells s2 p = cells s p"
    using V(4) X(6) f1 by simp
  have W: "W = fresh s" and b: "b = fresh s + 1" using X(1) V(1) f1 by simp_all
  note Wc = X(3,4,5)
  have bc: "cells s2 (fresh s + 1) = new_leaf (zeros 1 (lay ! (l + 1))) True"
    using V(3) f1 by simp
  have upt: "map (\<lambda>k. fresh s + 2 * k) [0..<length (l # ls)] = fresh s # map (\<lambda>k. fresh s2 + 2 * k) [0..<length ls]"
    "map (\<lambda>k. fresh s + 2 * k + 1) [0..<length (l # ls)] = (fresh s + 1) # map (\<lambda>k. fresh s2 + 2 * k + 1) [0..<length ls]"
    by (simp_all add: f2 upt_rec[of 0] map_Suc_upt[symmetric] del: upt_Suc)
  show ?case
  proof (intro conjI allI impI)
    show "fresh s' = fresh s + 2 * length (l # ls)" using IH f2 by simp
    show "ws' = ws @ map (\<lambda>k. fresh s + 2 * k) [0..<length (l # ls)]"
      using IH W upt by simp
    show "bs' = bs @ map (\<lambda>k. fresh s + 2 * k + 1) [0..<length (l # ls)]"
      using IH b upt by simp
  next
    fix p assume "p < fresh s"
    then show "cells s' p = cells s p" using IH keep f2 by simp
  next
    fix k assume k: "k < length (l # ls)"
    have old: "cells s' (fresh s) = cells s1 (fresh s)" "cells s' (fresh s + 1) = cells s2 (fresh s + 1)"
      using IH f2 c0 by simp_all
    show "shape (data (cells s' (fresh s + 2 * k))) = (lay ! ((l # ls) ! k), lay ! ((l # ls) ! k + 1))"
      using k IH Wc old f2 by (cases k) (simp_all)
    show "wf_array (data (cells s' (fresh s + 2 * k)))"
      using k IH Wc old f2 by (cases k) (simp_all)
    show "requires_grad (cells s' (fresh s + 2 * k))"
      using k IH Wc old f2 by (cases k) (simp_all)
    show "cells s' (fresh s + 2 * k + 1) = new_leaf (zeros 1 (lay ! ((l # ls) ! k + 1))) True"
      using k IH bc old f2 by (cases k) (simp_all)
  qed
qed

section \<open>The forward evaluator\<close>

lemma data_result [simp]: "data (result v rg) = v"
  and rg_result [simp]: "requires_grad (result v rg) = rg"
  and grad_result [simp]: "grad (result v rg) = None"
  by (simp_all add: result_def)

lemma ebind_Inr [simp]: "ebind (Inr v) f = f v"
  and ebind_Inl [simp]: "ebind (Inl e) f = Inl e"
  by (simp_all add: ebind_def)

lemma ebind_assoc: "ebind (ebind m f) h = ebind m (\<lambda>v. ebind (f v) h)"
  by (cases m) simp_all

lemma sum_list_upt: "sum_list (map f [0..<n]) = (\<Sum>k<n. f k)"
  by (simp add: interv_sum_list_conv_sum_set_nat atLeast0LessThan)

lemma layer_step:
  assumes "shape (data H) = (N, m)" "shape (data W) = (m, p)" "shape (data b) = (1, p)"
  shows "ebind (torch_matmul H W) (\<lambda>HW. torch_add HW b)
         = Inr (result (affine (data H) (data W) (data b))
                  ((requires_grad H \<or> requires_grad W) \<or> requires_grad b))"
proof -
  have s: "nrows (data H) = N" "ncols (data H) = m" "nrows (data W) = m" "ncols (data W) = p"
    "nrows (data b) = 1" "ncols (data b) = p"
    using assms by (simp_all add: shape_def)
  have "mk (bdim N 1) (bdim p p)
      (\<lambda>i j. entry (mk N p (\<lambda>i j. \<Sum>k<m. entry (data H) i k * entry (data W) k j)) (bidx N i) (bidx p j)
         + entry (data b) (bidx 1 i) (bidx p j))
    = mk N p (\<lambda>i j. (\<Sum>k<m. entry (data H) i k * entry (data W) k j) + entry (data b) 0 j)"
    by (auto simp: bdim_def bidx_def intro!: mk_cong)
  then show ?thesis
    by (simp add: torch_matmul_def torch_add_def lift2_def matmul_def add_def broadcast_def
        ebind_def s compat_def sum_list_upt affine_def)
qed

lemma shape_affine [simp]: "shape (affine H W b) = (nrows H, ncols W)"
  by (simp add: affine_def)

lemma shape_map_array [simp]: "shape (map_array g a) = shape a"
  by (simp add: map_array_def shape_def)

lemma hidden_loop_spec:
  assumes "n \<le> length ws" "n \<le> length bs"
    and "\<And>l. l < n \<Longrightarrow> shape (data (ws ! l)) = (dims ! l, dims ! (l + 1)) \<and>
                         shape (data (bs ! l)) = (1, dims ! (l + 1))"
    and "a \<le> n" "shape (data H) = (N, dims ! a)"
  shows "\<exists>H'. hidden_loop ws bs [a..<n] H = Inr H' \<and>
           data H' = foldl hidden (data H)
                       (zip (map data (drop a (take n ws))) (map data (drop a (take n bs)))) \<and>
           shape (data H') = (N, dims ! n)"
  using assms(4,5)
proof (induction "n - a" arbitrary: a H)
  case 0
  then have "a = n" by simp
  with 0 show ?case by simp
next
  case (Suc d)
  then have an: "a < n" by simp
  have sh: "shape (data (ws ! a)) = (dims ! a, dims ! (a + 1))"
    "shape (data (bs ! a)) = (1, dims ! (a + 1))"
    using assms(3)[OF an] by simp_all
  let ?Z = "result (affine (data H) (data (ws ! a)) (data (bs ! a)))
              ((requires_grad H \<or> requires_grad (ws ! a)) \<or> requires_grad (bs ! a))"
  have step: "ebind (torch_matmul H (ws ! a)) (\<lambda>HW. torch_add HW (bs ! a)) = Inr ?Z"
    by (rule layer_step[OF Suc.prems(2) sh])
  have shZ: "shape (data (torch_tanh ?Z)) = (N, dims ! Suc a)"
  proof -
    have "nrows (data H) = N" "ncols (data (ws ! a)) = dims ! Suc a"
      using Suc.prems(2) sh by (simp_all add: shape_def)
    then show ?thesis by (simp add: torch_tanh_def)
  qed
  have d: "d = n - Suc a" using Suc.hyps(2) by simp
  from Suc.hyps(1)[OF d _ shZ] an
  obtain H' where H': "hidden_loop ws bs [Suc a..<n] (torch_tanh ?Z) = Inr H'"
    "data H' = foldl hidden (data (torch_tanh ?Z))
                 (zip (map data (drop (Suc a) (take n ws))) (map data (drop (Suc a) (take n bs))))"
    "shape (data H') = (N, dims ! n)"
    by auto
  have idx: "getidx ws a = Inr (ws ! a)" "getidx bs a = Inr (bs ! a)"
    using an assms(1,2) by (simp_all add: getidx_def)
  have "hidden_loop ws bs [a..<n] H =
      ebind (ebind (torch_matmul H (ws ! a)) (\<lambda>HW. torch_add HW (bs ! a)))
        (\<lambda>Z. hidden_loop ws bs [Suc a..<n] (torch_tanh Z))"
    using an by (simp add: upt_conv_Cons idx ebind_assoc)
  then have loop: "hidden_loop ws bs [a..<n] H = hidden_loop ws bs [Suc a..<n] (torch_tanh ?Z)"
    by (simp add: step)
  have dr: "drop a (take n ws) = ws ! a # drop (Suc a) (take n ws)"
    "drop a (take n bs) = bs ! a # drop (Suc a) (take n bs)"
    using an assms(1,2) by (simp_all add: Cons_nth_drop_Suc[symmetric])
  show ?case
    using H' loop dr by (simp add: hidden_def torch_tanh_def)
qed

lemma torch_cat_columns:
  assumes "shape (data x) = (N, 1)" "shape (data y) = (N, 1)"
  shows "torch_cat x y = Inr (result (columns (data x) (data y)) (requires_grad x \<or> requires_grad y))"
proof -
  have s: "nrows (data x) = N" "ncols (data x) = 1" "nrows (data y) = N" "ncols (data y) = 1"
    using assms by (simp_all add: shape_def)
  have "mk N (1 + 1) (\<lambda>i j. if j < 1 then entry (data x) i j else entry (data y) i (j - 1))
      = mk N 2 (\<lambda>i j. if j = 0 then entry (data x) i 0 else entry (data y) i 0)"
    apply (simp cong: if_cong)
    apply (subst numeral_2_eq_2)
    apply (rule mk_cong)
    apply (auto simp: less_Suc_eq)
    done
  then show ?thesis
    by (simp add: torch_cat_def lift2_def cat1_def s columns_def cong: if_cong)
qed

lemma neural_net_value:
  assumes "ws \<noteq> []" and "layer_shapes dims (map data ws) (map data bs)" and "dims ! 0 = 2"
    and "shape (data x) = (N, 1)" and "shape (data y) = (N, 1)"
  shows "\<exists>Y. neural_net x y ws bs = Inr Y \<and>
           data Y = mlp (data x) (data y) (map data ws) (map data bs) \<and>
           shape (data Y) = (N, last dims)"
proof -
  let ?n = "length ws - 1"
  let ?H0 = "result (columns (data x) (data y)) (requires_grad x \<or> requires_grad y)"
  have len: "length bs = length ws" "length dims = length ws + 1"
    and sh: "\<And>l. l < length ws \<Longrightarrow> shape (data (ws ! l)) = (dims ! l, dims ! (l + 1)) \<and>
                                  shape (data (bs ! l)) = (1, dims ! (l + 1))"
    using assms(2) by (auto simp: layer_shapes_def)
  have pos: "0 < length ws" using assms(1) by simp
  have bne: "bs \<noteq> []" using len pos by auto
  have sh0: "shape (data ?H0) = (N, dims ! 0)"
    using assms(3,4) by (simp add: columns_def shape_def)
  have "\<exists>H'. hidden_loop ws bs [0..<?n] ?H0 = Inr H' \<and>
           data H' = foldl hidden (data ?H0)
                       (zip (map data (drop 0 (take ?n ws))) (map data (drop 0 (take ?n bs)))) \<and>
           shape (data H') = (N, dims ! ?n)"
  proof (rule hidden_loop_spec[where dims = dims])
    show "?n \<le> length ws" "?n \<le> length bs" "0 \<le> ?n" using len by simp_all
    show "shape (data ?H0) = (N, dims ! 0)" by (rule sh0)
  next
    fix l assume "l < ?n"
    then show "shape (data (ws ! l)) = (dims ! l, dims ! (l + 1)) \<and>
               shape (data (bs ! l)) = (1, dims ! (l + 1))"
      using sh[of l] by simp
  qed
  then obtain H' where H': "hidden_loop ws bs [0..<?n] ?H0 = Inr H'"
    "data H' = foldl hidden (columns (data x) (data y))
                 (zip (map data (take ?n ws)) (map data (take ?n bs)))"
    "shape (data H') = (N, dims ! ?n)"
    by auto
  have lastw: "last ws = ws ! ?n" and lastb: "last bs = bs ! ?n"
    using assms(1) bne len by (simp_all add: last_conv_nth)
  have shl: "shape (data (last ws)) = (dims ! ?n, dims ! (?n + 1))"
    "shape (data (last bs)) = (1, dims ! (?n + 1))"
    using sh[of ?n] pos lastw lastb by simp_all
  let ?Y = "result (affine (data H') (data (last ws)) (data (last bs)))
              ((requires_grad H' \<or> requires_grad (last ws)) \<or> requires_grad (last bs))"
  have fin: "ebind (torch_matmul H' (last ws)) (\<lambda>HW. torch_add HW (last bs)) = Inr ?Y"
    by (rule layer_step[OF H'(3) shl])
  have run: "neural_net x y ws bs = Inr ?Y"
    using fin H'(1) assms(1) bne
    by (simp add: neural_net_def torch_cat_columns[OF assms(4,5)] getlast_def)
  have bl: "butlast (map data ws) = map data (take ?n ws)"
    "butlast (map data bs) = map data (take ?n bs)"
    using len by (simp_all add: map_butlast[symmetric] butlast_conv_take take_map)
  have lm: "last (map data ws) = data (last ws)" "last (map data bs) = data (last bs)"
    using assms(1) bne by (simp_all add: last_map)
  have val: "data ?Y = mlp (data x) (data y) (map data ws) (map data bs)"
    by (simp add: mlp_def bl lm H'(2))
  have ld: "last dims = dims ! (?n + 1)"
  proof -
    have "dims \<noteq> []" using len by auto
    then show ?thesis using len pos by (simp add: last_conv_nth)
  qed
  have shY: "shape (data ?Y) = (N, last dims)"
  proof -
    have "nrows (data H') = N" "ncols (data (last ws)) = last dims"
      using H'(3) shl ld by (simp_all add: shape_def)
    then show ?thesis by simp
  qed
  show ?thesis using run val shY by blast
qed

section \<open>The coordinate normalizer\<close>

lemma nrows_row [simp]: "nrows (row v) = 1"
  and ncols_row [simp]: "ncols (row v) = length v"
  and entry_row [simp]: "entry (row v) 0 j = v ! j"
  by (simp_all add: row_def nrows_def entry_def)

lemma nrows_map_array [simp]: "nrows (map_array g a) = nrows a"
  and ncols_map_array [simp]: "ncols (map_array g a) = ncols a"
  by (simp_all add: map_array_def)

lemma entry_map_array [simp]:
  "i < nrows a \<Longrightarrow> j < ncols a \<Longrightarrow> entry (map_array g a) i j = g (entry a i j)"
  by (simp add: map_array_def)

lemma broadcast_row:
  assumes "ncols a = length v"
  shows "broadcast e g a (row v) = Inr (mk (nrows a) (length v) (\<lambda>i j. g (entry a i j) (v ! j)))"
proof -
  have "mk (bdim (nrows a) 1) (bdim (length v) (length v))
          (\<lambda>i j. g (entry a (bidx (nrows a) i) (bidx (length v) j))
                   (entry (row v) (bidx 1 i) (bidx (length v) j)))
      = mk (nrows a) (length v) (\<lambda>i j. g (entry a i j) (v ! j))"
    by (auto simp: bdim_def bidx_def intro!: mk_cong)
  then show ?thesis
    by (simp add: broadcast_def compat_def assms)
qed

lemma coor_shift_value:
  assumes "ncols X = length lbs" and "length ubs = length lbs"
  shows "coor_shift X lbs ubs =
           Inr (mk (nrows X) (length lbs)
                  (\<lambda>i j. 2 * (entry X i j - lbs ! j) / (ubs ! j - lbs ! j) - 1))"
proof -
  let ?d = "length lbs"
  let ?A = "mk (nrows X) ?d (\<lambda>i j. entry X i j - lbs ! j)"
  let ?D = "mk 1 ?d (\<lambda>i j. ubs ! j - lbs ! j)"
  have A: "broadcast ValueError (\<lambda>u v. u - v) X (row lbs) = Inr ?A"
    by (rule broadcast_row[OF assms(1)])
  have D: "broadcast ValueError (\<lambda>u v. u - v) (row ubs) (row lbs) = Inr ?D"
  proof -
    have "mk (nrows (row ubs)) ?d (\<lambda>i j. entry (row ubs) i j - lbs ! j) = ?D"
      by (auto intro!: mk_cong)
    then show ?thesis
      using broadcast_row[of "row ubs" lbs ValueError "\<lambda>u v. u - v"] assms(2) by simp
  qed
  have "mk (bdim (nrows X) 1) (bdim ?d ?d)
          (\<lambda>i j. entry (map_array (\<lambda>v. 2 * v) ?A) (bidx (nrows X) i) (bidx ?d j)
                   / entry ?D (bidx 1 i) (bidx ?d j))
      = mk (nrows X) ?d (\<lambda>i j. 2 * (entry X i j - lbs ! j) / (ubs ! j - lbs ! j))"
    by (auto simp: bdim_def bidx_def intro!: mk_cong)
  then have Q: "broadcast ValueError (\<lambda>u v. u / v) (map_array (\<lambda>v. 2 * v) ?A) ?D
      = Inr (mk (nrows X) ?d (\<lambda>i j. 2 * (entry X i j - lbs ! j) / (ubs ! j - lbs ! j)))"
    by (simp add: broadcast_def compat_def)
  have "map_array (\<lambda>v. v - 1) (mk (nrows X) ?d (\<lambda>i j. 2 * (entry X i j - lbs ! j) / (ubs ! j - lbs ! j)))
      = mk (nrows X) ?d (\<lambda>i j. 2 * (entry X i j - lbs ! j) / (ubs ! j - lbs ! j) - 1)"
    unfolding map_array_def nrows_mk ncols_mk by (rule mk_cong) simp
  then show ?thesis
    unfolding coor_shift_def by (simp only: A D Q ebind_Inr)
qed

section \<open>The prediction router\<close>

lemma ebind_eq_Inr: "ebind m f = Inr r \<longleftrightarrow> (\<exists>v. m = Inr v \<and> f v = Inr r)"
  by (cases m) simp_all

lemma ebind_eq_Inl: "ebind m f = Inl e \<longleftrightarrow> m = Inl e \<or> (\<exists>v. m = Inr v \<and> f v = Inl e)"
  by (cases m) auto

lemma forward_loop_skip:
  "\<not> known i \<Longrightarrow> forward_loop G self s xt yt (i # ks) p = forward_loop G self s xt yt ks p"
  by (simp add: known_def)

lemma forward_loop_known:
  "known i \<Longrightarrow> forward_loop G self s xt yt (i # ks) p =
     ebind (getitem xt i) (\<lambda>x.
     ebind (getitem yt i) (\<lambda>y.
     ebind (evaluator G self s i x y) (\<lambda>v.
     ebind (set_pred p i v) (\<lambda>p'.
     forward_loop G self s xt yt ks p'))))"
  by (auto simp: known_def evaluator_def ebind_assoc)

lemma forward_loop_filter:
  "forward_loop G self s xt yt (filter known ks) = forward_loop G self s xt yt ks"
proof (induction ks)
  case Nil
  show ?case by simp
next
  case (Cons i ks)
  show ?case
  proof (cases "known i")
    case False
    then show ?thesis using Cons.IH by (auto simp: forward_loop_skip simp del: forward_loop.simps)
  next
    case True
    then show ?thesis using Cons.IH
      by (auto simp: forward_loop_known simp del: forward_loop.simps)
  qed
qed

lemma set_pred_None [simp]: "set_pred None i v = Inl (UnboundLocalError ''preds'')"
  by (simp add: set_pred_def)

lemma set_pred_Some [simp]: "set_pred (Some d) i v = Inr (Some (AList.update i (Some v) d))"
  by (simp add: set_pred_def)

lemma forward_loop_unbound: "forward_loop G self s xt yt ks None \<noteq> Inr pd"
proof (induction ks)
  case Nil
  show ?case by simp
next
  case (Cons i ks)
  show ?case
  proof (cases "known i")
    case False
    then show ?thesis using Cons.IH by (simp add: forward_loop_skip del: forward_loop.simps)
  next
    case True
    then show ?thesis
      by (simp add: forward_loop_known ebind_eq_Inr del: forward_loop.simps)
  qed
qed

lemma forward_loop_frame:
  "forward_loop G self s xt yt ks (Some d) = Inr pd \<Longrightarrow> k \<notin> set ks \<or> \<not> known k \<Longrightarrow>
   map_of pd k = map_of d k"
proof (induction ks arbitrary: d)
  case Nil
  then show ?case by simp
next
  case (Cons i ks)
  have rest: "k \<notin> set ks \<or> \<not> known k" using Cons.prems(2) by auto
  show ?case
  proof (cases "known i")
    case False
    then have "forward_loop G self s xt yt ks (Some d) = Inr pd"
      using Cons.prems(1) by (simp add: forward_loop_skip del: forward_loop.simps)
    then show ?thesis using rest by (rule Cons.IH)
  next
    case True
    then have ki: "k \<noteq> i" using Cons.prems(2) by auto
    from Cons.prems(1) True obtain v where
      "forward_loop G self s xt yt ks (Some (AList.update i (Some v) d)) = Inr pd"
      by (auto simp: forward_loop_known ebind_eq_Inr simp del: forward_loop.simps)
    from Cons.IH[OF this rest] ki show ?thesis
      by (simp add: update_conv')
  qed
qed

lemma forward_loop_error_indep:
  "forward_loop G self s xt yt ks (Some d) = Inl e \<Longrightarrow>
   forward_loop G self s xt yt ks (Some d') = Inl e"
proof (induction ks arbitrary: d d')
  case Nil
  then show ?case by simp
next
  case (Cons i ks)
  show ?case
  proof (cases "known i")
    case False
    then show ?thesis using Cons.prems Cons.IH[of d d']
      by (simp add: forward_loop_skip del: forward_loop.simps)
  next
    case True
    then show ?thesis using Cons.prems Cons.IH
      by (simp add: forward_loop_known ebind_eq_Inl del: forward_loop.simps) blast
  qed
qed

lemma map_of_fold_None:
  "map_of (fold (\<lambda>i d. AList.update i None d) ks d0) k
     = (if k \<in> set ks then Some None else map_of d0 k)"
  by (induction ks arbitrary: d0) (auto simp: update_conv')

lemma filter_known_removeAll:
  "\<not> known k \<Longrightarrow> filter known (removeAll k ks) = filter known ks"
  by (induction ks) auto

section \<open>The loss assembler\<close>

lemma tsum_mk: "tsum (mk r c f) = (\<Sum>i<r. \<Sum>j<c. f i j)"
  by (simp add: tsum_def mk_def comp_def sum_list_upt)

lemma sub_same_shape:
  assumes "shape T = shape P"
  shows "sub P T = Inr (mk (nrows P) (ncols P) (\<lambda>i j. entry P i j - entry T i j))"
proof -
  have s: "nrows T = nrows P" "ncols T = ncols P" using assms by (simp_all add: shape_def)
  have "mk (bdim (nrows P) (nrows P)) (bdim (ncols P) (ncols P))
          (\<lambda>i j. entry P (bidx (nrows P) i) (bidx (ncols P) j)
                 - entry T (bidx (nrows P) i) (bidx (ncols P) j))
      = mk (nrows P) (ncols P) (\<lambda>i j. entry P i j - entry T i j)"
    by (auto simp: bdim_def bidx_def intro!: mk_cong)
  then show ?thesis
    by (simp add: sub_def broadcast_def compat_def s)
qed

lemma mean_sq_diff:
  assumes "shape T = shape P" and "0 < nrows P * ncols P"
  shows "ebind (sub P T) (\<lambda>r. Inr (mean (pow2 r))) = Inr (Num (mse P T))"
proof -
  have "pow2 (mk (nrows P) (ncols P) (\<lambda>i j. entry P i j - entry T i j))
      = mk (nrows P) (ncols P) (\<lambda>i j. (entry P i j - entry T i j) ^ 2)"
    unfolding pow2_def map_array_def nrows_mk ncols_mk by (rule mk_cong) simp
  then show ?thesis using assms(2)
    by (simp add: sub_same_shape[OF assms(1)] mean_def tsum_mk mse_def)
qed

lemma minus_target_ok:
  assumes "shape (data T) = shape (data P)" and "0 < nrows (data P) * ncols (data P)"
  shows "ebind (minus_target (Some P) T) (\<lambda>res. Inr (mean (pow2 (data res))))
         = Inr (Num (mse (data P) (data T)))"
  using mean_sq_diff[OF assms]
  by (simp add: minus_target_def torch_sub_def lift2_def ebind_def split: sum.splits)

lemma map_of_fold_const:
  "map_of (fold (\<lambda>i d. AList.update i c d) ks d0) k
     = (if k \<in> set ks then Some c else map_of d0 k)"
  by (induction ks arbitrary: d0) (auto simp: update_conv')

lemma loss_func_loop:
  "loss_func pd td w = loss_loop pd td (weights_dict pd w) (map fst pd) (Num 0)"
  by (simp add: loss_func_def weights_dict_def Let_def)

lemma loss_loop_step:
  assumes "map_of pd k = Some p" "role_ok td w (k, p)" "k \<in> set (map fst pd)"
  shows "loss_loop pd td (weights_dict pd w) (k # ks) (Num acc)
         = loss_loop pd td (weights_dict pd w) ks (Num (acc + role_term td w (k, p)))"
proof -
  from assms(2) obtain P T where PT: "p = Some P" "map_of td k = Some T"
    "shape (data T) = shape (data P)" and ne: "0 < nrows (data P) * ncols (data P)"
    and W: "case w of None \<Rightarrow> True | Some d \<Rightarrow> map_of d k \<noteq> None"
    unfolding role_ok_def fst_conv snd_conv by blast
  have gw: "getitem (weights_dict pd w) k = Inr (weight_of w k)"
  proof (cases w)
    case None
    then show ?thesis using assms(3)
      by (simp add: weights_dict_def getitem_def map_of_fold_const weight_of_def)
  next
    case (Some d)
    then show ?thesis using W
      by (auto simp: weights_dict_def getitem_def weight_of_def split: option.splits)
  qed
  have res: "\<exists>res. minus_target (Some P) T = Inr res \<and>
                 mean (pow2 (data res)) = Num (mse (data P) (data T))"
    using minus_target_ok[OF PT(3) ne] by (auto simp: ebind_eq_Inr)
  then obtain res where res: "minus_target (Some P) T = Inr res"
    "mean (pow2 (data res)) = Num (mse (data P) (data T))" by blast
  show ?thesis
    using PT assms(1) gw res
    by (simp add: getitem_def role_term_def scale_def accumulate_def)
qed

lemma loss_loop_ok:
  assumes "distinct (map fst pd)" "set es \<subseteq> set pd" "list_all (role_ok td w) es"
  shows "loss_loop pd td (weights_dict pd w) (map fst es) (Num acc)
         = Inr (Num (acc + (\<Sum>e\<leftarrow>es. role_term td w e)))"
  using assms(2,3)
proof (induction es arbitrary: acc)
  case Nil
  show ?case by simp
next
  case (Cons e es)
  obtain k p where e: "e = (k, p)" by (cases e)
  have mem: "(k, p) \<in> set pd" using Cons.prems(1) e by simp
  have look: "map_of pd k = Some p" using assms(1) mem by simp
  have ok: "role_ok td w (k, p)" using Cons.prems(2) e by simp
  have kin: "k \<in> set (map fst pd)" using mem by force
  have "loss_loop pd td (weights_dict pd w) (map fst (e # es)) (Num acc)
      = loss_loop pd td (weights_dict pd w) (map fst es) (Num (acc + role_term td w (k, p)))"
    using loss_loop_step[OF look ok kin] e by simp
  also have "\<dots> = Inr (Num (acc + role_term td w (k, p) + (\<Sum>e\<leftarrow>es. role_term td w e)))"
    using Cons.IH Cons.prems by simp
  finally show ?case using e by (simp add: add.assoc)
qed

lemma loss_loop_append:
  "loss_loop pd td wd (xs @ ys) acc = ebind (loss_loop pd td wd xs acc) (loss_loop pd td wd ys)"
proof (induction xs arbitrary: acc)
  case Nil
  show ?case by simp
next
  case (Cons x xs)
  show ?case by (simp add: Cons.IH ebind_assoc)
qed

lemma loss_loop_missing:
  assumes "map_of pd k = Some p" "map_of td k = None"
  shows "loss_loop pd td wd (k # ks) acc = Inl (KeyError k)"
  using assms by (simp add: getitem_def)

section \<open>Gradient attachment\<close>

lemma set_grad_simps [simp]:
  "data (cells (set_grad p g s) a) = data (cells s a)"
  "requires_grad (cells (set_grad p g s) a) = requires_grad (cells s a)"
  "fresh (set_grad p g s) = fresh s"
  "a \<noteq> p \<Longrightarrow> cells (set_grad p g s) a = cells s a"
  "grad (cells (set_grad p g s) p) = Some g"
  by (simp_all add: set_grad_def)

lemma assign_grads_inv:
  assumes "\<forall>v \<in> set vs. v < length grads"
  shows "\<exists>s'. assign_grads params grads vs s = Inr s' \<and>
           (\<forall>a. data (cells s' a) = data (cells s a) \<and>
                requires_grad (cells s' a) = requires_grad (cells s a)) \<and>
           fresh s' = fresh s \<and>
           (\<forall>a. a \<notin> (\<lambda>v. params ! v) ` set vs \<longrightarrow> cells s' a = cells s a) \<and>
           (\<forall>i \<in> set vs. \<exists>j \<in> set vs. params ! j = params ! i \<and>
                grad (cells s' (params ! i)) = Some (data (grads ! j)))"
  using assms
proof (induction vs arbitrary: s)
  case Nil
  show ?case by simp
next
  case (Cons v vs)
  let ?s1 = "set_grad (params ! v) (data (grads ! v)) s"
  have v: "v < length grads" and rest: "\<forall>u \<in> set vs. u < length grads"
    using Cons.prems by simp_all
  from Cons.IH[OF rest, of ?s1] obtain s' where
    run: "assign_grads params grads vs ?s1 = Inr s'"
    and keep: "\<forall>a. data (cells s' a) = data (cells ?s1 a) \<and>
                requires_grad (cells s' a) = requires_grad (cells ?s1 a)"
    and fr: "fresh s' = fresh ?s1"
    and frame: "\<forall>a. a \<notin> (\<lambda>v. params ! v) ` set vs \<longrightarrow> cells s' a = cells ?s1 a"
    and slots: "\<forall>i \<in> set vs. \<exists>j \<in> set vs. params ! j = params ! i \<and>
                grad (cells s' (params ! i)) = Some (data (grads ! j))"
    by blast
  have step: "assign_grads params grads (v # vs) s = Inr s'"
    using v run by (simp add: getidx_def)
  have slots': "\<exists>j \<in> set (v # vs). params ! j = params ! i \<and>
                grad (cells s' (params ! i)) = Some (data (grads ! j))"
    if i: "i \<in> set (v # vs)" for i
  proof (cases "params ! i \<in> (\<lambda>v. params ! v) ` set vs")
    case True
    then obtain u where u: "u \<in> set vs" "params ! u = params ! i" by auto
    from slots u(1) obtain j where "j \<in> set vs" "params ! j = params ! u"
      "grad (cells s' (params ! u)) = Some (data (grads ! j))" by blast
    then show ?thesis using u(2) by auto
  next
    case False
    then have iv: "i = v" using i by auto
    have "cells s' (params ! v) = cells ?s1 (params ! v)"
      using frame False iv by simp
    then have "grad (cells s' (params ! v)) = Some (data (grads ! v))" by simp
    then show ?thesis using iv by auto
  qed
  have frame': "cells s' a = cells s a" if "a \<notin> (\<lambda>v. params ! v) ` set (v # vs)" for a
    using frame that by simp
  show ?case
    using step keep fr frame' slots' by (intro exI[of _ s']) simp
qed

lemma customized_backward_run:
  assumes "tracked out" and "reaches out"
    and "list_all (\<lambda>p. requires_grad (cells s p)) params"
    and "G (denotes out) (map (\<lambda>p. data (cells s p)) params) = Inr gs"
    and "length gs = length params"
  shows "\<exists>s'. customized_backward G out params s = Inr (map (\<lambda>v. result v False) gs, s') \<and>
           (\<forall>i < length params. \<exists>j < length params. params ! j = params ! i \<and>
                grad (cells s' (params ! i)) = Some (gs ! j)) \<and>
           (\<forall>a. data (cells s' a) = data (cells s a) \<and>
                requires_grad (cells s' a) = requires_grad (cells s a)) \<and>
           (\<forall>a. a \<notin> set params \<longrightarrow> cells s' a = cells s a) \<and>
           fresh s' = fresh s"
proof -
  let ?grads = "map (\<lambda>v. result v False) gs"
  have ag: "autograd_grad G False out (map (cells s) params) = Inr ?grads"
    using assms(1-4) by (simp add: autograd_grad_def list_all_iff comp_def)
  have "\<forall>v \<in> set [0..<length params]. v < length ?grads" using assms(5) by simp
  from assign_grads_inv[OF this, of params s] obtain s' where
    run: "assign_grads params ?grads [0..<length params] s = Inr s'"
    and keep: "\<forall>a. data (cells s' a) = data (cells s a) \<and>
                requires_grad (cells s' a) = requires_grad (cells s a)"
    and fr: "fresh s' = fresh s"
    and frame: "\<forall>a. a \<notin> (\<lambda>v. params ! v) ` set [0..<length params] \<longrightarrow> cells s' a = cells s a"
    and slots: "\<forall>i \<in> set [0..<length params]. \<exists>j \<in> set [0..<length params].
                params ! j = params ! i \<and>
                grad (cells s' (params ! i)) = Some (data (?grads ! j))"
    by blast
  have img: "(\<lambda>v. params ! v) ` set [0..<length params] = set params"
    by (auto simp: in_set_conv_nth)
  have slots': "\<forall>i < length params. \<exists>j < length params. params ! j = params ! i \<and>
                grad (cells s' (params ! i)) = Some (gs ! j)"
  proof (intro allI impI)
    fix i assume "i < length params"
    then have "i \<in> set [0..<length params]" by simp
    with slots have "\<exists>j \<in> set [0..<length params]. params ! j = params ! i \<and>
                grad (cells s' (params ! i)) = Some (data (?grads ! j))" by blast
    then obtain j where "j < length params" "params ! j = params ! i"
      "grad (cells s' (params ! i)) = Some (data (?grads ! j))"
      by auto
    then show "\<exists>j < length params. params ! j = params ! i \<and>
                grad (cells s' (params ! i)) = Some (gs ! j)"
      using assms(5) by auto
  qed
  have "customized_backward G out params s = Inr (?grads, s')"
    by (simp add: customized_backward_def ag run)
  then show ?thesis using slots' keep frame fr img by auto
qed

lemma entry_put [simp]:
  "i < nrows a \<Longrightarrow> j < ncols a \<Longrightarrow> entry (put a i j t) i j = t"
  by (simp add: put_def)



section \<open>The loss history\<close>

lemma init_hist: "init lay g s = Inr r \<Longrightarrow> loss_list (fst r) = []"
  by (auto simp: init_def ebind_eq_Inr)

lemma evaluate_appends:
  assumes "evaluate G lf opt xt yt tt st = Inr (v, self1, s1)"
  shows "self1 = callback (fst st) v"
  using assms
  by (auto simp: evaluate_def Let_def ebind_eq_Inr)

lemma callback_hist [simp]: "loss_list (callback self v) = loss_list self @ [v]"
  by (simp add: callback_def)

lemma step_closure_hist:
  assumes "\<And>st v self1 s1. closure st = Inr (v, self1, s1) \<Longrightarrow> self1 = callback (fst st) v"
    and "step_closure n opt closure ost (self, s) = Inr (k, ost', self', s')"
  shows "\<exists>new. loss_list self' = loss_list self @ new \<and> length new = k"
  using assms(2)
proof (induction n arbitrary: ost self s k)
  case 0
  then obtain v self1 s1 where c: "closure (self, s) = Inr (v, self1, s1)"
    and r: "k = 1" "self' = self1"
    by (auto simp: ebind_eq_Inr split: option.splits)
  then show ?case using assms(1)[OF c] by simp
next
  case (Suc n)
  from Suc.prems obtain v self1 s1 where c: "closure (self, s) = Inr (v, self1, s1)"
    and r: "(k = 1 \<and> self' = self1) \<or>
            (\<exists>ost1 s2 k'. step_closure n opt closure ost1 (self1, s2) = Inr (k', ost', self', s')
               \<and> k = Suc k')"
    by (auto simp: ebind_eq_Inr split: option.splits) blast
  have h1: "loss_list self1 = loss_list self @ [v]" using assms(1)[OF c] by simp
  from r show ?case
  proof
    assume "k = 1 \<and> self' = self1"
    then show ?thesis using h1 by simp
  next
    assume "\<exists>ost1 s2 k'. step_closure n opt closure ost1 (self1, s2) = Inr (k', ost', self', s')
               \<and> k = Suc k'"
    then obtain ost1 s2 k' where
      rec: "step_closure n opt closure ost1 (self1, s2) = Inr (k', ost', self', s')"
      and k: "k = Suc k'" by blast
    from Suc.IH[OF rec] obtain new where "loss_list self' = loss_list self1 @ new" "length new = k'"
      by blast
    then show ?thesis using h1 k by simp
  qed
qed

lemma finish_hist:
  "finish G lf xt yt tt self s = Inr self' \<Longrightarrow> loss_list self' = loss_list self"
  by (auto simp: finish_def Let_def ebind_eq_Inr)

lemma train_loop_hist:
  assumes "train_loop n G lf opt xt yt tt ost (self, s) = Inr (ost', self', s')"
  shows "\<exists>new. loss_list self' = loss_list self @ new \<and> length new = n"
  using assms
proof (induction n arbitrary: ost self s)
  case 0
  then show ?case by simp
next
  case (Suc n)
  then obtain v self1 s1 ost1 s2 where
    e: "evaluate G lf opt xt yt tt (self, s) = Inr (v, self1, s1)"
    and rec: "train_loop n G lf opt xt yt tt ost1 (self1, s2) = Inr (ost', self', s')"
    by (auto simp: ebind_eq_Inr)
  have h1: "loss_list self1 = loss_list self @ [v]" using evaluate_appends[OF e] by simp
  from Suc.IH[OF rec] obtain new where "loss_list self' = loss_list self1 @ new" "length new = n"
    by blast
  then show ?case using h1 by simp
qed

lemma train_LBFGS_hist:
  assumes "train_LBFGS G self s td lf opt ost = Inr (k, ost', self', s')"
  shows "\<exists>new. loss_list self' = loss_list self @ new \<and> length new = k"
proof -
  from assms obtain xt yt tt self1 where
    st: "step_closure (budget opt) opt (evaluate G lf opt xt yt tt) ost (self, s)
           = Inr (k, ost', self1, s')"
    and fin: "finish G lf xt yt tt self1 s' = Inr self'"
    by (auto simp: train_LBFGS_def ebind_eq_Inr)
  from step_closure_hist[OF _ st] evaluate_appends
  obtain new where "loss_list self1 = loss_list self @ new" "length new = k" by blast
  then show ?thesis using finish_hist[OF fin] by auto
qed

lemma train_hist:
  assumes "train G gl self s epoch u_data f_data bc_data lf opt ost = Inr (ost', self', s')"
  shows "\<exists>new. loss_list self' = loss_list self @ new \<and> length new = nat epoch"
proof -
  from assms obtain td where gl: "gl = Some td" by (cases gl) (auto simp: train_def)
  from assms gl obtain xt yt tt self1 where
    st: "train_loop (nat epoch) G lf opt xt yt tt ost (self, s) = Inr (ost', self1, s')"
    and fin: "finish G lf xt yt tt self1 s' = Inr self'"
    by (auto simp: train_def ebind_eq_Inr)
  from train_loop_hist[OF st]
  obtain new where "loss_list self1 = loss_list self @ new" "length new = nat epoch" by blast
  then show ?thesis using finish_hist[OF fin] by auto
qed

section \<open>The concrete training run\<close>

lemmas run_defs = torch_cat_def torch_matmul_def torch_add_def torch_sub_def torch_tanh_def lift2_def
  cat1_def matmul_def add_def sub_def broadcast_def mk_def entry_def nrows_def compat_def
  bdim_def bidx_def result_def leaf_def new_leaf_def getlast_def getidx_def map_array_def
  numeral_2_eq_2

lemma net_ok0: "net_ok tanh_self tanh_store"
  by (simp add: net_ok_def tanh_self_def tanh_store_def leaf_def new_leaf_def)

lemma rg_pt: "requires_grad pt" "data pt = Array 1 [[0]]"
  by (simp_all add: pt_def leaf_def new_leaf_def)

lemma rg_out0: "requires_grad out0" "grad_fn out0" "set_requires_grad out0 = out0"
  "data out0 = Array 1 [[0]]" "result (Array 1 [[0]]) True = out0"
  "result (Array (Suc 0) [[0]]) True = out0"
  by (simp_all add: out0_def result_def set_requires_grad_def)

lemma net_u_single: "net_u net_self net_store pt pt = Inr out0"
proof -
  have "net_u net_self net_store pt pt = Inr (result (Array 1 [[0]]) True)"
    by (simp add: net_u_def neural_net_def the_weights_def the_biases_def net_self_def
        net_store_def pt_def run_defs)
  then show ?thesis by (simp only: rg_out0)
qed

lemma nn0:
  assumes "net_ok self s"
  shows "neural_net pt pt (the_weights self s) (the_biases self s) = Inr out0"
proof -
  have "neural_net pt pt (the_weights self s) (the_biases self s) = Inr (result (Array 1 [[0]]) True)"
    using assms
    by (simp add: neural_net_def the_weights_def the_biases_def net_ok_def pt_def run_defs)
  then show ?thesis by (simp only: rg_out0)
qed

lemma net_u1: "net_ok self s \<Longrightarrow> net_u self s pt pt = Inr out0"
  by (simp add: net_u_def nn0)

lemma net_du1: "net_ok self s \<Longrightarrow> net_du echo_autograd self s pt pt = Inr (out0, out0)"
  by (simp add: net_du_def nn0 autograd_grad_def echo_autograd_def getidx_def rg_pt rg_out0)

lemma out0_plus_out0: "torch_add out0 out0 = Inr out0"
proof -
  have "torch_add out0 out0 = Inr (result (Array 1 [[0]]) True)"
    by (simp add: out0_def run_defs)
  then show ?thesis by (simp only: rg_out0)
qed

lemma net_f1: "net_ok self s \<Longrightarrow> net_f echo_autograd self s pt pt = Inr out0"
  by (simp add: net_f_def net_du1 autograd_grad_def echo_autograd_def getidx_def rg_pt rg_out0
      out0_plus_out0 hidden_layers_def net_ok_def)

lemma td1_unzip: "unzip_train_dict td1 None = Inr (xt1, xt1, xt1)"
  by (simp add: unzip_train_dict_def unzip_loop_def td1_def getitem_def xt1_def)

lemma forward1:
  "net_ok self s \<Longrightarrow> forward echo_autograd self s xt1 xt1 (Some roles3) = Inr pd1"
  by (simp add: forward_def roles3_def xt1_def getitem_def net_u1 net_du1 net_f1 pd1_def)

lemma loss1: "lf1 pd1 xt1 = Inr (Num 0)"
proof -
  have d: "distinct (map fst pd1)" by (simp add: pd1_def)
  have ok: "list_all (role_ok xt1 None) pd1"
    by (simp add: pd1_def xt1_def role_ok_def rg_out0 rg_pt shape_def nrows_def)
  have "(\<Sum>e\<leftarrow>pd1. role_term xt1 None e) = 0"
    by (simp add: pd1_def xt1_def role_term_def mse_def rg_out0 rg_pt entry_def nrows_def)
  then show ?thesis
    using loss_loop_ok[OF d _ ok, of 0] by (simp add: lf1_def loss_func_loop)
qed

lemma evaluate1:
  assumes "net_ok self s"
  shows "\<exists>s'. evaluate echo_autograd lf1 opt1 xt1 xt1 xt1 (self, s)
                 = Inr (Num 0, callback self (Num 0), s')
              \<and> net_ok (callback self (Num 0)) s'"
proof -
  let ?self1 = "callback self (Num 0)"
  let ?ps = "weights ?self1 @ biases ?self1"
  let ?L = "loss_graph echo_autograd lf1 ?self1 s xt1 xt1 xt1"
  have ps: "?ps = [0, 2, 1, 3]" using assms by (simp add: net_ok_def callback_def)
  have rg: "list_all (\<lambda>p. requires_grad (cells s p)) ?ps"
    using assms by (simp add: ps) (simp add: net_ok_def)
  have tr: "tracked ?L" "reaches ?L" by (simp_all add: loss_graph_def)
  have g: "echo_autograd (denotes ?L)
             (map (\<lambda>p. data (cells s p)) ?ps) = Inr (map (\<lambda>p. data (cells s p)) ?ps)"
    by (simp add: echo_autograd_def)
  from customized_backward_run[where G = echo_autograd, OF tr rg g]
  obtain s' where cb: "customized_backward echo_autograd ?L ?ps s
      = Inr (map (\<lambda>v. result v False) (map (\<lambda>p. data (cells s p)) ?ps), s')"
    and keep: "\<forall>a. data (cells s' a) = data (cells s a) \<and>
                requires_grad (cells s' a) = requires_grad (cells s a)"
    by auto
  have ok': "net_ok ?self1 s'"
    using assms keep by (simp add: net_ok_def callback_def)
  have "evaluate echo_autograd lf1 opt1 xt1 xt1 xt1 (self, s) = Inr (Num 0, ?self1, s')"
    using cb by (simp add: evaluate_def opt1_def forward1[OF assms] loss1 Let_def)
  then show ?thesis using ok' by blast
qed

lemma finish1:
  assumes "net_ok self s"
  shows "finish echo_autograd lf1 xt1 xt1 xt1 self s
           = Inr (self\<lparr>pred_dict := Some pd1, loss := Some (Num 0)\<rparr>)"
  by (simp add: finish_def forward1[OF assms] loss1 Let_def)

lemma train_LBFGS1:
  "\<exists>self' s'. train_LBFGS echo_autograd tanh_self tanh_store td1 lf1 opt1 () = Inr (1, (), self', s')"
proof -
  from evaluate1[OF net_ok0] obtain s' where
    e: "evaluate echo_autograd lf1 opt1 xt1 xt1 xt1 (tanh_self, tanh_store)
          = Inr (Num 0, callback tanh_self (Num 0), s')"
    and ok: "net_ok (callback tanh_self (Num 0)) s'" by blast
  show ?thesis
    using e finish1[OF ok]
    by (simp add: train_LBFGS_def td1_unzip) (simp add: opt1_def)
qed

lemma train_loop1:
  assumes "net_ok self s"
  shows "\<exists>self' s'. train_loop n echo_autograd lf1 opt1 xt1 xt1 xt1 () (self, s) = Inr ((), self', s')
            \<and> net_ok self' s'"
  using assms
proof (induction n arbitrary: self s)
  case 0
  then show ?case by simp
next
  case (Suc n)
  from evaluate1[OF Suc.prems] obtain s1 where
    e: "evaluate echo_autograd lf1 opt1 xt1 xt1 xt1 (self, s)
          = Inr (Num 0, callback self (Num 0), s1)"
    and ok: "net_ok (callback self (Num 0)) s1" by blast
  from Suc.IH[OF ok] obtain self' s' where
    "train_loop n echo_autograd lf1 opt1 xt1 xt1 xt1 () (callback self (Num 0), s1)
       = Inr ((), self', s')"
    "net_ok self' s'" by blast
  then show ?case using e by (simp add: opt1_def)
qed

lemma train1:
  "\<exists>self' s'. train echo_autograd (Some td1) tanh_self tanh_store 2 () () () lf1 opt1 ()
                 = Inr ((), self', s')"
proof -
  from train_loop1[OF net_ok0, of "nat 2"] obtain self1 s1 where
    l: "train_loop (nat 2) echo_autograd lf1 opt1 xt1 xt1 xt1 () (tanh_self, tanh_store)
          = Inr ((), self1, s1)"
    and ok: "net_ok self1 s1" by blast
  show ?thesis
    using l finish1[OF ok] by (simp add: train_def td1_unzip)
qed

lemma init_run: "\<exists>r. init [2, 1, 1] (\<lambda>k. 1) store0 = Inr r"
proof -
  have "\<forall>k < length [0..<length [2, 1, 1 :: nat] - 1].
          0 < [2, 1, 1 :: nat] ! ([0..<length [2, 1, 1 :: nat] - 1] ! k)
              + [2, 1, 1] ! ([0..<length [2, 1, 1 :: nat] - 1] ! k + 1)"
    by (auto simp: less_Suc_eq)
  from init_loop_returns[OF this, of "[]" "[]" "\<lambda>k. 1" store0]
  show ?thesis by (auto simp: init_def initialize_NN_def ebind_def)
qed

section \<open>The rows of the network are independent\<close>

lemma wf_array_mk: "wf_array a \<Longrightarrow> a = mk (nrows a) (ncols a) (entry a)"
  by (rule array_eqI) (simp_all add: shape_def)

lemma tsum_col:
  assumes "is_col N a"
  shows "tsum a = (\<Sum>i<N. entry a i 0)"
proof -
  have s: "nrows a = N" "ncols a = 1" and wf: "wf_array a"
    using assms by (simp_all add: is_col_def shape_def)
  have "tsum a = tsum (mk N 1 (entry a))" using wf_array_mk[OF wf] s by simp
  then show ?thesis by (simp add: tsum_mk)
qed

lemma is_col_put: "is_col N a \<Longrightarrow> is_col N (put a i j t)"
  by (simp add: is_col_def put_def shape_def)

lemma entry_put_col:
  "is_col N a \<Longrightarrow> i' < N \<Longrightarrow> entry (put a i 0 t) i' 0 = (if i' = i then t else entry a i' 0)"
  by (simp add: is_col_def put_def shape_def)

lemma nrows_affine [simp]: "nrows (affine H W b) = nrows H"
  and ncols_affine [simp]: "ncols (affine H W b) = ncols W"
  by (simp_all add: affine_def)

lemma nrows_hidden [simp]: "nrows (hidden H Wb) = nrows H"
  and ncols_hidden [simp]: "ncols (hidden H Wb) = ncols (fst Wb)"
  by (simp_all add: hidden_def)

lemma nrows_row_of [simp]: "nrows (row_of a i) = 1"
  and ncols_row_of [simp]: "ncols (row_of a i) = ncols a"
  by (simp_all add: row_of_def)

lemma entry_row_of [simp]: "j < ncols a \<Longrightarrow> entry (row_of a i) 0 j = entry a i j"
  by (simp add: row_of_def)

lemma row_of_affine:
  assumes "i < nrows H"
  shows "row_of (affine H W b) i = affine (row_of H i) W b"
  unfolding row_of_def[of "affine H W b"] affine_def[of "row_of H i"] ncols_affine nrows_row_of
    ncols_row_of
  by (rule mk_cong) (simp add: affine_def assms)

lemma row_of_map_array:
  assumes "i < nrows a"
  shows "row_of (map_array g a) i = map_array g (row_of a i)"
  unfolding row_of_def[of "map_array g a"] map_array_def[of g "row_of a i"] ncols_map_array
    nrows_row_of ncols_row_of
  by (rule mk_cong) (simp add: assms)

lemma row_of_hidden:
  "i < nrows H \<Longrightarrow> row_of (hidden H Wb) i = hidden (row_of H i) Wb"
  by (simp add: hidden_def row_of_map_array row_of_affine)

lemma nrows_foldl_hidden [simp]: "nrows (foldl hidden H zs) = nrows H"
  by (induction zs arbitrary: H) simp_all

lemma row_of_foldl_hidden:
  "i < nrows H \<Longrightarrow> row_of (foldl hidden H zs) i = foldl hidden (row_of H i) zs"
  by (induction zs arbitrary: H) (simp_all add: row_of_hidden)

lemma point_simps [simp]: "nrows (point p) = 1" "ncols (point p) = 1" "entry (point p) 0 0 = p"
  by (simp_all add: point_def nrows_def entry_def)

lemma row_of_columns:
  assumes "i < nrows a"
  shows "row_of (columns a b) i = columns (point (entry a i 0)) (point (entry b i 0))"
proof -
  have "mk 1 2 (\<lambda>i' j. entry (columns a b) i j)
      = mk 1 2 (\<lambda>i' j. if j = 0 then entry (point (entry a i 0)) i' 0
                       else entry (point (entry b i 0)) i' 0)"
    by (rule mk_cong) (simp add: columns_def assms)
  then show ?thesis
    by (simp add: row_of_def columns_def)
qed

lemma mlp_rowwise:
  assumes "i < nrows a" "ncols (last Ws) = 1"
  shows "entry (mlp a b Ws bs) i 0 = entry (mlp (point (entry a i 0)) (point (entry b i 0)) Ws bs) 0 0"
proof -
  let ?zs = "zip (butlast Ws) (butlast bs)"
  have i: "i < nrows (foldl hidden (columns a b) ?zs)"
    using assms(1) by (simp add: columns_def)
  have "entry (mlp a b Ws bs) i 0 = entry (row_of (mlp a b Ws bs) i) 0 0"
    using assms(2) by (simp add: mlp_def)
  also have "row_of (mlp a b Ws bs) i
      = affine (foldl hidden (row_of (columns a b) i) ?zs) (last Ws) (last bs)"
    using i assms(1) by (simp add: mlp_def row_of_affine row_of_foldl_hidden columns_def)
  also have "\<dots> = mlp (point (entry a i 0)) (point (entry b i 0)) Ws bs"
    by (simp add: row_of_columns[OF assms(1)] mlp_def)
  finally show ?thesis .
qed

lemma add_same_shape:
  assumes "shape T = shape P"
  shows "add P T = Inr (mk (nrows P) (ncols P) (\<lambda>i j. entry P i j + entry T i j))"
proof -
  have s: "nrows T = nrows P" "ncols T = ncols P" using assms by (simp_all add: shape_def)
  have "mk (bdim (nrows P) (nrows P)) (bdim (ncols P) (ncols P))
          (\<lambda>i j. entry P (bidx (nrows P) i) (bidx (ncols P) j)
                 + entry T (bidx (nrows P) i) (bidx (ncols P) j))
      = mk (nrows P) (ncols P) (\<lambda>i j. entry P i j + entry T i j)"
    by (auto simp: bdim_def bidx_def intro!: mk_cong)
  then show ?thesis
    by (simp add: add_def broadcast_def compat_def s)
qed

lemma is_col_mk [simp]: "is_col N (mk N 1 f)"
  by (simp add: is_col_def)

lemma is_colD: "is_col N a \<Longrightarrow> nrows a = N" "is_col N a \<Longrightarrow> ncols a = 1"
  "is_col N a \<Longrightarrow> shape a = (N, 1)" "is_col N a \<Longrightarrow> wf_array a"
  by (simp_all add: is_col_def shape_def)

lemma wf_affine [simp]: "wf_array (affine H W b)"
  by (simp add: affine_def)

lemma wf_mlp [simp]: "wf_array (mlp a b Ws bs)"
  by (simp add: mlp_def)

lemma scalar_net_last:
  assumes "Ws \<noteq> []" "layer_shapes dims Ws bs" "last dims = 1"
  shows "ncols (last Ws) = 1"
proof -
  let ?n = "length Ws - 1"
  have len: "length dims = length Ws + 1" and
    sh: "shape (Ws ! ?n) = (dims ! ?n, dims ! (?n + 1))"
    using assms(1,2) by (auto simp: layer_shapes_def)
  have "dims \<noteq> []" using len by auto
  then have "last dims = dims ! (?n + 1)" using len assms(1) by (simp add: last_conv_nth)
  moreover have "last Ws = Ws ! ?n" using assms(1) by (simp add: last_conv_nth)
  ultimately show ?thesis using sh assms(3) by (simp add: shape_def)
qed

lemma net_columns:
  assumes "scalar_net self s" "is_col N a" "is_col N b"
  shows "\<exists>Y. neural_net (x\<lparr>data := a\<rparr>) (y\<lparr>data := b\<rparr>) (the_weights self s) (the_biases self s) = Inr Y \<and>
           is_col N (data Y) \<and>
           (\<forall>i < N. entry (data Y) i 0 = point_u self s (entry a i 0) (entry b i 0))"
proof -
  let ?W = "the_weights self s" and ?B = "the_biases self s"
  from assms(1) obtain dims where ne: "?W \<noteq> []"
    and ls: "layer_shapes dims (map data ?W) (map data ?B)"
    and d0: "dims ! 0 = 2" and dl: "last dims = 1"
    by (auto simp: scalar_net_def)
  have sa: "shape (data (x\<lparr>data := a\<rparr>)) = (N, 1)" "shape (data (y\<lparr>data := b\<rparr>)) = (N, 1)"
    using assms(2,3) by (simp_all add: is_colD)
  from neural_net_value[OF ne ls d0 sa] obtain Y where
    Y: "neural_net (x\<lparr>data := a\<rparr>) (y\<lparr>data := b\<rparr>) ?W ?B = Inr Y"
    "data Y = mlp a b (map data ?W) (map data ?B)" "shape (data Y) = (N, last dims)"
    by auto
  have col: "is_col N (data Y)" using Y(2,3) dl by (simp add: is_col_def)
  have nc: "ncols (last (map data ?W)) = 1"
    using scalar_net_last[OF _ ls dl] ne by simp
  have "entry (data Y) i 0 = point_u self s (entry a i 0) (entry b i 0)" if "i < N" for i
    using mlp_rowwise[of i a "map data ?W" b "map data ?B"] nc that assms(2)
    by (simp add: Y(2) point_u_def is_colD)
  then show ?thesis using Y(1) col by blast
qed

lemma sum_of_net:
  assumes "scalar_net self s" "is_col N a" "is_col N b"
  shows "sum_of (neural_net (x\<lparr>data := a\<rparr>) (y\<lparr>data := b\<rparr>) (the_weights self s) (the_biases self s))
         = usum self s N a b"
proof -
  from net_columns[OF assms, of x y] obtain Y where
    Y: "neural_net (x\<lparr>data := a\<rparr>) (y\<lparr>data := b\<rparr>) (the_weights self s) (the_biases self s) = Inr Y"
    "is_col N (data Y)" "\<forall>i < N. entry (data Y) i 0 = point_u self s (entry a i 0) (entry b i 0)"
    by blast
  show ?thesis
    using Y(3) by (simp add: Y(1) sum_of_def tsum_col[OF Y(2)] usum_def)
qed

lemma u_sum_x_eq:
  assumes "scalar_net self s" "is_col N a" "is_col N b"
  shows "u_sum_x self s x (y\<lparr>data := b\<rparr>) [a] = usum self s N a b"
  using sum_of_net[OF assms, of x y] by (simp add: u_sum_x_def)

lemma u_sum_y_eq:
  assumes "scalar_net self s" "is_col N a" "is_col N b"
  shows "u_sum_y self s (x\<lparr>data := a\<rparr>) y [b] = usum self s N a b"
  using sum_of_net[OF assms, of x y] by (simp add: u_sum_y_def)

lemma usum_put_x:
  assumes "is_col N a" "i < N"
  shows "usum self s N (put a i 0 t) b
         = point_u self s t (entry b i 0)
           + (\<Sum>k \<in> {..<N} - {i}. point_u self s (entry a k 0) (entry b k 0))"
proof -
  have "usum self s N (put a i 0 t) b
      = (\<Sum>k<N. if k = i then point_u self s t (entry b i 0)
                 else point_u self s (entry a k 0) (entry b k 0))"
    unfolding usum_def by (rule sum.cong) (auto simp: entry_put_col[OF assms(1)])
  also have "\<dots> = point_u self s t (entry b i 0)
           + (\<Sum>k \<in> {..<N} - {i}. point_u self s (entry a k 0) (entry b k 0))"
    using assms(2) by (subst sum.remove[of _ i]) (auto intro!: sum.cong)
  finally show ?thesis .
qed

lemma usum_put_y:
  assumes "is_col N b" "i < N"
  shows "usum self s N a (put b i 0 t)
         = point_u self s (entry a i 0) t
           + (\<Sum>k \<in> {..<N} - {i}. point_u self s (entry a k 0) (entry b k 0))"
proof -
  have "usum self s N a (put b i 0 t)
      = (\<Sum>k<N. if k = i then point_u self s (entry a i 0) t
                 else point_u self s (entry a k 0) (entry b k 0))"
    unfolding usum_def by (rule sum.cong) (auto simp: entry_put_col[OF assms(1)])
  also have "\<dots> = point_u self s (entry a i 0) t
           + (\<Sum>k \<in> {..<N} - {i}. point_u self s (entry a k 0) (entry b k 0))"
    using assms(2) by (subst sum.remove[of _ i]) (auto intro!: sum.cong)
  finally show ?thesis .
qed

section \<open>Differentiating the sum over the rows\<close>

text \<open>
  The sum over the rows, as a function of one entry of the input column, is the
  network at that row plus a constant: its derivative is the row's own derivative. The
  same holds one level up, for the sum of the first derivatives.
\<close>

lemma deriv_drop_const:
  assumes "((\<lambda>t. h t + c) has_real_derivative d) (at p)"
  shows "(h has_real_derivative d) (at p)"
proof -
  have "((\<lambda>t. (h t + c) - c) has_real_derivative d - 0) (at p)"
    by (intro derivative_intros assms)
  then show ?thesis by simp
qed

lemma second_from_sums:
  fixes phi :: "nat \<Rightarrow> real \<Rightarrow> real" and g :: "array \<Rightarrow> array" and S :: "array \<Rightarrow> real"
  assumes X: "is_col N X" and i: "i < N"
    and g: "\<And>a k. is_col N a \<Longrightarrow> k < N \<Longrightarrow>
              (phi k has_real_derivative entry (g a) k 0) (at (entry a k 0))"
    and S: "\<And>a. is_col N a \<Longrightarrow> S a = (\<Sum>k<N. entry (g a) k 0)"
    and d: "((\<lambda>t. S (put X i 0 t)) has_real_derivative d) (at (entry X i 0))"
  shows "second_derivative (phi i) (entry X i 0) d"
proof -
  define h' where "h' t = entry (g (put X i 0 t)) i 0" for t
  define c where "c = (\<Sum>k \<in> {..<N} - {i}. entry (g X) k 0)"
  have col: "is_col N (put X i 0 t)" for t by (rule is_col_put[OF X])
  have first: "(phi i has_real_derivative h' r) (at r)" for r
    using g[OF col i, of r] by (simp add: h'_def entry_put_col[OF X i])
  have other: "entry (g (put X i 0 t)) k 0 = entry (g X) k 0" if "k < N" "k \<noteq> i" for k t
  proof -
    have "(phi k has_real_derivative entry (g (put X i 0 t)) k 0) (at (entry X k 0))"
      using g[OF col that(1), of t] that by (simp add: entry_put_col[OF X])
    moreover have "(phi k has_real_derivative entry (g X) k 0) (at (entry X k 0))"
      by (rule g[OF X that(1)])
    ultimately show ?thesis by (rule DERIV_unique)
  qed
  have "S (put X i 0 t) = h' t + c" for t
  proof -
    have "S (put X i 0 t) = (\<Sum>k<N. entry (g (put X i 0 t)) k 0)" by (rule S[OF col])
    also have "\<dots> = entry (g (put X i 0 t)) i 0
                     + (\<Sum>k \<in> {..<N} - {i}. entry (g (put X i 0 t)) k 0)"
      using i by (subst sum.remove[of _ i]) auto
    also have "(\<Sum>k \<in> {..<N} - {i}. entry (g (put X i 0 t)) k 0) = c"
      unfolding c_def by (rule sum.cong) (auto simp: other)
    finally show ?thesis by (simp add: h'_def)
  qed
  then have "((\<lambda>t. h' t + c) has_real_derivative d) (at (entry X i 0))"
    using d by simp
  then have "(h' has_real_derivative d) (at (entry X i 0))"
    by (rule deriv_drop_const)
  then show ?thesis
    unfolding second_derivative_def using first by blast
qed

lemma grad_ok_x:
  assumes "scalar_net self s" "is_col N a" "is_col N b"
    and "grad_ok G (u_sum_x self s x (y\<lparr>data := b\<rparr>)) a"
  shows "\<exists>g. G (u_sum_x self s x (y\<lparr>data := b\<rparr>)) [a] = Inr [g] \<and> is_col N g \<and>
           (\<forall>k < N. ((\<lambda>p. point_u self s p (entry b k 0)) has_real_derivative entry g k 0)
                      (at (entry a k 0)))"
proof -
  let ?out = "u_sum_x self s x (y\<lparr>data := b\<rparr>)"
  from assms(4) obtain g where G: "G ?out [a] = Inr [g]"
    and ig: "is_gradient (\<lambda>v. ?out [v]) a g" by (auto simp: grad_ok_def)
  have col: "is_col N g" using ig assms(2) by (simp add: is_gradient_def is_col_def)
  have "((\<lambda>p. point_u self s p (entry b k 0)) has_real_derivative entry g k 0) (at (entry a k 0))"
    if k: "k < N" for k
  proof -
    have "((\<lambda>t. ?out [put a k 0 t]) has_real_derivative entry g k 0) (at (entry a k 0))"
      using ig k assms(2) by (simp add: is_gradient_def is_colD)
    moreover have "?out [put a k 0 t] = point_u self s t (entry b k 0)
           + (\<Sum>j \<in> {..<N} - {k}. point_u self s (entry a j 0) (entry b j 0))" for t
      using u_sum_x_eq[OF assms(1) is_col_put[OF assms(2), of k 0 t] assms(3), of x y]
      by (simp add: usum_put_x[OF assms(2) k])
    ultimately show ?thesis by (simp add: deriv_drop_const)
  qed
  then show ?thesis using G col by blast
qed

lemma grad_ok_y:
  assumes "scalar_net self s" "is_col N a" "is_col N b"
    and "grad_ok G (u_sum_y self s (x\<lparr>data := a\<rparr>) y) b"
  shows "\<exists>g. G (u_sum_y self s (x\<lparr>data := a\<rparr>) y) [b] = Inr [g] \<and> is_col N g \<and>
           (\<forall>k < N. ((\<lambda>q. point_u self s (entry a k 0) q) has_real_derivative entry g k 0)
                      (at (entry b k 0)))"
proof -
  let ?out = "u_sum_y self s (x\<lparr>data := a\<rparr>) y"
  from assms(4) obtain g where G: "G ?out [b] = Inr [g]"
    and ig: "is_gradient (\<lambda>v. ?out [v]) b g" by (auto simp: grad_ok_def)
  have col: "is_col N g" using ig assms(3) by (simp add: is_gradient_def is_col_def)
  have "((\<lambda>q. point_u self s (entry a k 0) q) has_real_derivative entry g k 0) (at (entry b k 0))"
    if k: "k < N" for k
  proof -
    have "((\<lambda>t. ?out [put b k 0 t]) has_real_derivative entry g k 0) (at (entry b k 0))"
      using ig k assms(3) by (simp add: is_gradient_def is_colD)
    moreover have "?out [put b k 0 t] = point_u self s (entry a k 0) t
           + (\<Sum>j \<in> {..<N} - {k}. point_u self s (entry a j 0) (entry b j 0))" for t
      using u_sum_y_eq[OF assms(1,2) is_col_put[OF assms(3), of k 0 t], of x y]
      by (simp add: usum_put_y[OF assms(3) k])
    ultimately show ?thesis by (simp add: deriv_drop_const)
  qed
  then show ?thesis using G col by blast
qed

lemma u_sum_x_data [simp]: "u_sum_x self s (x\<lparr>data := a\<rparr>) y = u_sum_x self s x y"
  by (rule ext) (simp add: u_sum_x_def split: list.splits)

lemma u_sum_y_data [simp]: "u_sum_y self s x (y\<lparr>data := b\<rparr>) = u_sum_y self s x y"
  by (rule ext) (simp add: u_sum_y_def split: list.splits)

lemma set_requires_grad_result [simp]: "set_requires_grad (result g True) = result g True"
  by (simp add: set_requires_grad_def result_def)

lemma lift2_flags:
  assumes "lift2 opr a b = Inr r"
  shows "requires_grad r = (requires_grad a \<or> requires_grad b)"
    and "grad_fn r = (requires_grad a \<or> requires_grad b)"
  using assms by (auto simp: lift2_def result_def split: sum.splits)

lemma hidden_loop_flags:
  "hidden_loop ws bs ls H = Inr H' \<Longrightarrow> requires_grad H \<Longrightarrow> grad_fn H \<Longrightarrow>
   requires_grad H' \<and> grad_fn H'"
proof (induction ls arbitrary: H)
  case Nil
  then show ?case by simp
next
  case (Cons l ls)
  from Cons.prems(1) obtain W b HW Z where
    m: "torch_matmul H W = Inr HW" and a: "torch_add HW b = Inr Z"
    and rest: "hidden_loop ws bs ls (torch_tanh Z) = Inr H'"
    by (auto simp: ebind_eq_Inr)
  have "requires_grad HW" using lift2_flags(1)[OF m[unfolded torch_matmul_def]] Cons.prems(2) by simp
  then have "requires_grad Z" using lift2_flags(1)[OF a[unfolded torch_add_def]] by simp
  then have "requires_grad (torch_tanh Z)" "grad_fn (torch_tanh Z)"
    by (simp_all add: torch_tanh_def result_def)
  then show ?case using Cons.IH[OF rest] by simp
qed

lemma neural_net_flags:
  assumes "neural_net x y ws bs = Inr Y" and "requires_grad x"
  shows "requires_grad Y" and "grad_fn Y"
proof -
  from assms(1) obtain H0 H W b HW where
    c: "torch_cat x y = Inr H0"
    and h: "hidden_loop ws bs [0..<length ws + 1 - 2] H0 = Inr H"
    and m: "torch_matmul H W = Inr HW" and a: "torch_add HW b = Inr Y"
    by (auto simp: neural_net_def Let_def ebind_eq_Inr)
  have "requires_grad H0" "grad_fn H0"
    using lift2_flags[OF c[unfolded torch_cat_def]] assms(2) by simp_all
  then have "requires_grad H" using hidden_loop_flags[OF h] by simp
  then have "requires_grad HW" using lift2_flags(1)[OF m[unfolded torch_matmul_def]] by simp
  then show "requires_grad Y" and "grad_fn Y"
    using lift2_flags[OF a[unfolded torch_add_def]] by simp_all
qed

lemma result_flags [simp]: "requires_grad (result v rg) = rg" "grad_fn (result v rg) = rg"
  by (simp_all add: result_def)

lemma net_du_columns:
  assumes "scalar_net self s" "requires_grad x" "requires_grad y" "is_col N a" "is_col N b"
    and "G (u_sum_x self s x (y\<lparr>data := b\<rparr>)) [a] = Inr [gx]"
    and "G (u_sum_y self s (x\<lparr>data := a\<rparr>) y) [b] = Inr [gy]"
  shows "net_du G self s (x\<lparr>data := a\<rparr>) (y\<lparr>data := b\<rparr>) = Inr (result gx True, result gy True)"
proof -
  from net_columns[OF assms(1,4,5), of x y] obtain Y where
    Y: "neural_net (x\<lparr>data := a\<rparr>) (y\<lparr>data := b\<rparr>) (the_weights self s) (the_biases self s) = Inr Y"
    by blast
  have fl: "requires_grad Y" "grad_fn Y"
    using neural_net_flags[OF Y] assms(2) by simp_all
  show ?thesis
    using assms(2,3,6,7) fl
    by (simp add: net_du_def Y autograd_grad_def getidx_def)
qed

lemma net_f_laplacian_aux:
  assumes net: "scalar_net self s"
    and rx: "requires_grad x" and ry: "requires_grad y"
    and cx: "is_col N (data x)" and cy: "is_col N (data y)"
    and hid: "0 < hidden_layers self"
    and e1: "exact_first G self s x y N" and e2: "exact_second G self s x y"
  shows "\<exists>f. net_f G self s x y = Inr f \<and> requires_grad f \<and> grad_fn f \<and>
           shape (data f) = (N, 1) \<and>
           (\<forall>i < N. \<exists>dxx dyy.
              second_derivative (\<lambda>p. point_u self s p (entry (data y) i 0)) (entry (data x) i 0) dxx \<and>
              second_derivative (\<lambda>q. point_u self s (entry (data x) i 0) q) (entry (data y) i 0) dyy \<and>
              entry (data f) i 0 = dyy + dxx)"
proof -
  let ?X = "data x" and ?Y = "data y"
  define gx where "gx a = (case G (u_sum_x self s x y) [a] of Inr [g] \<Rightarrow> g | _ \<Rightarrow> a)" for a
  define gy where "gy b = (case G (u_sum_y self s x y) [b] of Inr [g] \<Rightarrow> g | _ \<Rightarrow> b)" for b
  have xid: "x\<lparr>data := ?X\<rparr> = x" and yid: "y\<lparr>data := ?Y\<rparr> = y" by simp_all
  have okx: "grad_ok G (u_sum_x self s x y) a" and oky': "grad_ok G (u_sum_y self s (x\<lparr>data := a\<rparr>) y) ?Y"
    if "is_col N a" for a
    using e1 that cy unfolding exact_first_def by (metis yid)+
  have oky: "grad_ok G (u_sum_y self s x y) b" and okx': "grad_ok G (u_sum_x self s x (y\<lparr>data := b\<rparr>)) ?X"
    if "is_col N b" for b
    using e1 that cx unfolding exact_first_def by (metis xid)+
  have GX: "G (u_sum_x self s x y) [a] = Inr [gx a] \<and> is_col N (gx a) \<and>
            (\<forall>k < N. ((\<lambda>p. point_u self s p (entry ?Y k 0)) has_real_derivative entry (gx a) k 0)
                        (at (entry a k 0)))"
    if a: "is_col N a" for a
  proof -
    from grad_ok_x[OF net a cy, of G x y] okx[OF a] obtain g where
      g: "G (u_sum_x self s x y) [a] = Inr [g]" "is_col N g"
      "\<forall>k < N. ((\<lambda>p. point_u self s p (entry ?Y k 0)) has_real_derivative entry g k 0)
                        (at (entry a k 0))"
      by (auto simp: yid)
    have "gx a = g" by (simp add: gx_def g(1))
    then show ?thesis using g by simp
  qed
  have GY: "G (u_sum_y self s x y) [b] = Inr [gy b] \<and> is_col N (gy b) \<and>
            (\<forall>k < N. ((\<lambda>q. point_u self s (entry ?X k 0) q) has_real_derivative entry (gy b) k 0)
                        (at (entry b k 0)))"
    if b: "is_col N b" for b
  proof -
    from grad_ok_y[OF net cx b, of G x y] oky[OF b] obtain g where
      g: "G (u_sum_y self s x y) [b] = Inr [g]" "is_col N g"
      "\<forall>k < N. ((\<lambda>q. point_u self s (entry ?X k 0) q) has_real_derivative entry g k 0)
                        (at (entry b k 0))"
      by (auto simp: xid)
    have "gy b = g" by (simp add: gy_def g(1))
    then show ?thesis using g by simp
  qed
  have DUx: "\<exists>uy. net_du G self s (x\<lparr>data := a\<rparr>) y = Inr (result (gx a) True, uy)"
    if a: "is_col N a" for a
  proof -
    from oky'[OF a] obtain g' where g': "G (u_sum_y self s (x\<lparr>data := a\<rparr>) y) [?Y] = Inr [g']"
      by (auto simp: grad_ok_def)
    have "G (u_sum_x self s x (y\<lparr>data := ?Y\<rparr>)) [a] = Inr [gx a]"
      using GX[OF a] by (simp add: yid)
    from net_du_columns[OF net rx ry a cy this g'] show ?thesis by (simp add: yid)
  qed
  have DUy: "\<exists>ux. net_du G self s x (y\<lparr>data := b\<rparr>) = Inr (ux, result (gy b) True)"
    if b: "is_col N b" for b
  proof -
    from okx'[OF b] obtain g' where g': "G (u_sum_x self s x (y\<lparr>data := b\<rparr>)) [?X] = Inr [g']"
      by (auto simp: grad_ok_def)
    have "G (u_sum_y self s (x\<lparr>data := ?X\<rparr>) y) [b] = Inr [gy b]"
      using GY[OF b] by (simp add: xid)
    from net_du_columns[OF net rx ry cx b g' this] show ?thesis by (simp add: xid)
  qed
  have SX: "ux_sum_x G self s x y [a] = (\<Sum>k<N. entry (gx a) k 0)" if a: "is_col N a" for a
    using DUx[OF a] GX[OF a] by (auto simp: ux_sum_x_def tsum_col)
  have SY: "uy_sum_y G self s x y [b] = (\<Sum>k<N. entry (gy b) k 0)" if b: "is_col N b" for b
    using DUy[OF b] GY[OF b] by (auto simp: uy_sum_y_def tsum_col)
  from e2 obtain gxx gyy where
    gxx: "G (ux_sum_x G self s x y) [?X] = Inr [gxx]"
      "is_gradient (\<lambda>v. ux_sum_x G self s x y [v]) ?X gxx"
    and gyy: "G (uy_sum_y G self s x y) [?Y] = Inr [gyy]"
      "is_gradient (\<lambda>v. uy_sum_y G self s x y [v]) ?Y gyy"
    by (auto simp: exact_second_def grad_ok_def)
  have cxx: "is_col N gxx" and cyy: "is_col N gyy"
    using gxx(2) gyy(2) cx cy by (simp_all add: is_gradient_def is_col_def)
  have dxx: "second_derivative (\<lambda>p. point_u self s p (entry ?Y i 0)) (entry ?X i 0) (entry gxx i 0)"
    if i: "i < N" for i
  proof (rule second_from_sums[where g = gx and S = "\<lambda>a. ux_sum_x G self s x y [a]"
        and phi = "\<lambda>k p. point_u self s p (entry ?Y k 0)", OF cx i])
    show "((\<lambda>p. point_u self s p (entry ?Y k 0)) has_real_derivative entry (gx a) k 0)
            (at (entry a k 0))" if "is_col N a" "k < N" for a k
      using GX[OF that(1)] that(2) by simp
    show "ux_sum_x G self s x y [a] = (\<Sum>k<N. entry (gx a) k 0)" if "is_col N a" for a
      by (rule SX[OF that])
    show "((\<lambda>t. ux_sum_x G self s x y [put ?X i 0 t]) has_real_derivative entry gxx i 0)
            (at (entry ?X i 0))"
      using gxx(2) i cx by (simp add: is_gradient_def is_colD)
  qed
  have dyy: "second_derivative (\<lambda>q. point_u self s (entry ?X i 0) q) (entry ?Y i 0) (entry gyy i 0)"
    if i: "i < N" for i
  proof (rule second_from_sums[where g = gy and S = "\<lambda>b. uy_sum_y G self s x y [b]"
        and phi = "\<lambda>k q. point_u self s (entry ?X k 0) q", OF cy i])
    show "((\<lambda>q. point_u self s (entry ?X k 0) q) has_real_derivative entry (gy b) k 0)
            (at (entry b k 0))" if "is_col N b" "k < N" for b k
      using GY[OF that(1)] that(2) by simp
    show "uy_sum_y G self s x y [b] = (\<Sum>k<N. entry (gy b) k 0)" if "is_col N b" for b
      by (rule SY[OF that])
    show "((\<lambda>t. uy_sum_y G self s x y [put ?Y i 0 t]) has_real_derivative entry gyy i 0)
            (at (entry ?Y i 0))"
      using gyy(2) i cy by (simp add: is_gradient_def is_colD)
  qed
  let ?f0 = "mk N 1 (\<lambda>i j. entry gyy i j + entry gxx i j)"
  have du: "net_du G self s x y = Inr (result (gx ?X) True, result (gy ?Y) True)"
  proof -
    have "G (u_sum_x self s x (y\<lparr>data := ?Y\<rparr>)) [?X] = Inr [gx ?X]"
      using GX[OF cx] by (simp add: yid)
    moreover have "G (u_sum_y self s (x\<lparr>data := ?X\<rparr>) y) [?Y] = Inr [gy ?Y]"
      using GY[OF cy] by (simp add: xid)
    ultimately show ?thesis using net_du_columns[OF net rx ry cx cy] by (simp add: xid yid)
  qed
  have sh: "shape gxx = shape gyy" using cxx cyy by (simp add: is_colD)
  have addf: "torch_add (result gyy True) (result gxx True) = Inr (result ?f0 True)"
    using add_same_shape[OF sh] cyy by (simp add: torch_add_def lift2_def is_colD)
  have run: "net_f G self s x y = Inr (result ?f0 True)"
    using rx ry gxx(1) gyy(1) addf hid
    by (simp add: net_f_def du autograd_grad_def getidx_def)
  have "entry (data (result ?f0 True)) i 0 = entry gyy i 0 + entry gxx i 0" if "i < N" for i
    using that by simp
  then show ?thesis
    using run dxx dyy by (intro exI[of _ "result ?f0 True"]) auto
qed

section \<open>Exact differentiation on the concrete networks\<close>

text \<open>
  Exact differentiation returns the gradient wherever there is one. On the network
  \<open>u = tanh (x + y)\<close> the first derivatives are \<open>1 - tanh\<^sup>2\<close> and the second
  derivatives \<open>- 2 tanh (1 - tanh\<^sup>2)\<close>, at \<open>x + y\<close>; on the network \<open>u = x + y\<close> the
  first derivatives are 1.
\<close>

lemma DERIV_tanh_shift: "((\<lambda>t. tanh (t + c)) has_real_derivative dtanh (p + c)) (at p)"
  unfolding dtanh_def by (auto intro!: derivative_eq_intros)

lemma DERIV_dtanh_shift: "((\<lambda>t. dtanh (t + c)) has_real_derivative ddtanh (p + c)) (at p)"
  unfolding dtanh_def ddtanh_def by (auto intro!: derivative_eq_intros)

lemma ideal_single:
  assumes "is_gradient (\<lambda>v. out [v]) a g"
  shows "ideal_autograd out [a] = Inr [g]"
proof -
  have sh: "shape g = shape a" and wf: "wf_array g"
    and d: "\<And>i j. i < nrows a \<Longrightarrow> j < ncols a \<Longrightarrow>
              ((\<lambda>t. out [put a i j t]) has_real_derivative entry g i j) (at (entry a i j))"
    using assms by (simp_all add: is_gradient_def)
  have "mk (nrows a) (ncols a) (partial out [a] 0) = g"
  proof (rule array_eqI)
    show "wf_array (mk (nrows a) (ncols a) (partial out [a] 0))" by simp
    show "wf_array g" by (rule wf)
    show "shape (mk (nrows a) (ncols a) (partial out [a] 0)) = shape g"
      using sh by (simp add: shape_def)
    fix i j
    assume "i < nrows (mk (nrows a) (ncols a) (partial out [a] 0))"
      and "j < ncols (mk (nrows a) (ncols a) (partial out [a] 0))"
    then have i: "i < nrows a" and j: "j < ncols a" by simp_all
    have "partial out [a] 0 i j = entry g i j"
      unfolding partial_def using d[OF i j]
      by (auto intro!: the_equality elim: DERIV_unique)
    then show "entry (mk (nrows a) (ncols a) (partial out [a] 0)) i j = entry g i j"
      using i j by simp
  qed
  then show ?thesis by (simp add: ideal_autograd_def)
qed

lemma grad_ok_ideal:
  "is_gradient (\<lambda>v. out [v]) a g \<Longrightarrow> grad_ok ideal_autograd out a"
  unfolding grad_ok_def using ideal_single by blast

lemma sum_put:
  assumes "is_col N a" "i < N"
  shows "(\<Sum>k<N. F k (entry (put a i 0 t) k 0))
         = F i t + (\<Sum>k \<in> {..<N} - {i}. F k (entry a k 0))"
proof -
  have "(\<Sum>k<N. F k (entry (put a i 0 t) k 0)) = (\<Sum>k<N. if k = i then F i t else F k (entry a k 0))"
    by (rule sum.cong) (auto simp: entry_put_col[OF assms(1)])
  also have "\<dots> = F i t + (\<Sum>k \<in> {..<N} - {i}. F k (entry a k 0))"
    using assms(2) by (subst sum.remove[of _ i]) (auto intro!: sum.cong)
  finally show ?thesis .
qed

lemma scalar_net_tanh: "scalar_net tanh_self tanh_store"
proof -
  have "layer_shapes [2, 1, 1] (map data (the_weights tanh_self tanh_store))
          (map data (the_biases tanh_self tanh_store))"
    by (simp add: layer_shapes_def the_weights_def the_biases_def tanh_self_def tanh_store_def
        leaf_def new_leaf_def shape_def nrows_def less_Suc_eq numeral_2_eq_2)
  moreover have "the_weights tanh_self tanh_store \<noteq> []"
    by (simp add: the_weights_def tanh_self_def)
  ultimately show ?thesis
    unfolding scalar_net_def by (intro conjI exI[of _ "[2, 1, 1]"]) simp_all
qed

lemma hidden_tanh: "0 < hidden_layers tanh_self"
  by (simp add: hidden_layers_def tanh_self_def)

lemma point_u_tanh: "point_u tanh_self tanh_store p q = tanh (p + q)"
  by (simp add: point_u_def mlp_def the_weights_def the_biases_def tanh_self_def tanh_store_def
      leaf_def new_leaf_def affine_def hidden_def columns_def map_array_def point_def mk_def
      entry_def nrows_def numeral_2_eq_2)

lemma deriv_add_const:
  assumes "(h has_real_derivative d) (at p)"
  shows "((\<lambda>t. h t + c) has_real_derivative d) (at p)"
  using DERIV_add[OF assms DERIV_const[of c]] by simp

lemma tanh_first_x:
  assumes "is_col N a" "is_col N b"
  shows "is_gradient (\<lambda>v. u_sum_x tanh_self tanh_store x (y\<lparr>data := b\<rparr>) [v]) a
           (mk N 1 (\<lambda>i j. dtanh (entry a i 0 + entry b i 0)))"
  unfolding is_gradient_def
proof (intro conjI allI impI)
  show "shape (mk N 1 (\<lambda>i j. dtanh (entry a i 0 + entry b i 0))) = shape a"
    using assms(1) by (simp add: is_colD)
  show "wf_array (mk N 1 (\<lambda>i j. dtanh (entry a i 0 + entry b i 0)))" by simp
  fix i j assume "i < nrows a" "j < ncols a"
  then have i: "i < N" and j: "j = 0" using assms(1) by (simp_all add: is_colD)
  have "u_sum_x tanh_self tanh_store x (y\<lparr>data := b\<rparr>) [put a i 0 t]
        = tanh (t + entry b i 0)
          + (\<Sum>k \<in> {..<N} - {i}. point_u tanh_self tanh_store (entry a k 0) (entry b k 0))" for t
    using u_sum_x_eq[OF scalar_net_tanh is_col_put[OF assms(1), of i 0 t] assms(2), of x y]
    by (simp add: usum_put_x[OF assms(1) i] point_u_tanh)
  moreover have "((\<lambda>t. tanh (t + entry b i 0)
          + (\<Sum>k \<in> {..<N} - {i}. point_u tanh_self tanh_store (entry a k 0) (entry b k 0)))
        has_real_derivative dtanh (entry a i 0 + entry b i 0)) (at (entry a i 0))"
    by (rule deriv_add_const) (rule DERIV_tanh_shift)
  ultimately show "((\<lambda>t. u_sum_x tanh_self tanh_store x (y\<lparr>data := b\<rparr>) [put a i j t])
        has_real_derivative entry (mk N 1 (\<lambda>i j. dtanh (entry a i 0 + entry b i 0))) i j)
        (at (entry a i j))"
    using i j by simp
qed

lemma tanh_first_y:
  assumes "is_col N a" "is_col N b"
  shows "is_gradient (\<lambda>v. u_sum_y tanh_self tanh_store (x\<lparr>data := a\<rparr>) y [v]) b
           (mk N 1 (\<lambda>i j. dtanh (entry a i 0 + entry b i 0)))"
  unfolding is_gradient_def
proof (intro conjI allI impI)
  show "shape (mk N 1 (\<lambda>i j. dtanh (entry a i 0 + entry b i 0))) = shape b"
    using assms(2) by (simp add: is_colD)
  show "wf_array (mk N 1 (\<lambda>i j. dtanh (entry a i 0 + entry b i 0)))" by simp
  fix i j assume "i < nrows b" "j < ncols b"
  then have i: "i < N" and j: "j = 0" using assms(2) by (simp_all add: is_colD)
  have "u_sum_y tanh_self tanh_store (x\<lparr>data := a\<rparr>) y [put b i 0 t]
        = tanh (t + entry a i 0)
          + (\<Sum>k \<in> {..<N} - {i}. point_u tanh_self tanh_store (entry a k 0) (entry b k 0))" for t
    using u_sum_y_eq[OF scalar_net_tanh assms(1) is_col_put[OF assms(2), of i 0 t], of x y]
    by (simp add: usum_put_y[OF assms(2) i] point_u_tanh add.commute)
  moreover have "((\<lambda>t. tanh (t + entry a i 0)
          + (\<Sum>k \<in> {..<N} - {i}. point_u tanh_self tanh_store (entry a k 0) (entry b k 0)))
        has_real_derivative dtanh (entry b i 0 + entry a i 0)) (at (entry b i 0))"
    by (rule deriv_add_const) (rule DERIV_tanh_shift)
  moreover have "dtanh (entry b i 0 + entry a i 0) = dtanh (entry a i 0 + entry b i 0)"
    by (simp add: add.commute)
  ultimately show "((\<lambda>t. u_sum_y tanh_self tanh_store (x\<lparr>data := a\<rparr>) y [put b i j t])
        has_real_derivative entry (mk N 1 (\<lambda>i j. dtanh (entry a i 0 + entry b i 0))) i j)
        (at (entry b i j))"
    using i j by simp
qed

lemma tanh_exact_first: "exact_first ideal_autograd tanh_self tanh_store x y N"
  unfolding exact_first_def
  using grad_ok_ideal[OF tanh_first_x] grad_ok_ideal[OF tanh_first_y] by blast

lemma tanh_net_du:
  assumes "requires_grad x" "requires_grad y" "is_col N a" "is_col N b"
  shows "net_du ideal_autograd tanh_self tanh_store (x\<lparr>data := a\<rparr>) (y\<lparr>data := b\<rparr>)
         = Inr (result (mk N 1 (\<lambda>i j. dtanh (entry a i 0 + entry b i 0))) True,
                result (mk N 1 (\<lambda>i j. dtanh (entry a i 0 + entry b i 0))) True)"
  by (rule net_du_columns[OF scalar_net_tanh assms
        ideal_single[OF tanh_first_x[OF assms(3,4)]] ideal_single[OF tanh_first_y[OF assms(3,4)]]])

lemma tanh_ux_sum_x:
  assumes "requires_grad x" "requires_grad y" "is_col N v" "is_col N (data y)"
  shows "ux_sum_x ideal_autograd tanh_self tanh_store x y [v]
         = (\<Sum>k<N. dtanh (entry v k 0 + entry (data y) k 0))"
proof -
  have "y\<lparr>data := data y\<rparr> = y" by simp
  with tanh_net_du[OF assms, of] show ?thesis
    by (simp add: ux_sum_x_def tsum_mk)
qed

lemma tanh_uy_sum_y:
  assumes "requires_grad x" "requires_grad y" "is_col N (data x)" "is_col N v"
  shows "uy_sum_y ideal_autograd tanh_self tanh_store x y [v]
         = (\<Sum>k<N. dtanh (entry v k 0 + entry (data x) k 0))"
proof -
  have "x\<lparr>data := data x\<rparr> = x" by simp
  with tanh_net_du[OF assms, of] show ?thesis
    by (simp add: uy_sum_y_def tsum_mk add.commute)
qed

lemma tanh_second_x:
  assumes "requires_grad x" "requires_grad y" "is_col N (data x)" "is_col N (data y)"
  shows "is_gradient (\<lambda>v. ux_sum_x ideal_autograd tanh_self tanh_store x y [v]) (data x)
           (mk N 1 (\<lambda>i j. ddtanh (entry (data x) i 0 + entry (data y) i 0)))"
  unfolding is_gradient_def
proof (intro conjI allI impI)
  let ?X = "data x" and ?Y = "data y"
  show "shape (mk N 1 (\<lambda>i j. ddtanh (entry ?X i 0 + entry ?Y i 0))) = shape ?X"
    using assms(3) by (simp add: is_colD)
  show "wf_array (mk N 1 (\<lambda>i j. ddtanh (entry ?X i 0 + entry ?Y i 0)))" by simp
  fix i j assume "i < nrows ?X" "j < ncols ?X"
  then have i: "i < N" and j: "j = 0" using assms(3) by (simp_all add: is_colD)
  have "ux_sum_x ideal_autograd tanh_self tanh_store x y [put ?X i 0 t]
        = dtanh (t + entry ?Y i 0)
          + (\<Sum>k \<in> {..<N} - {i}. dtanh (entry ?X k 0 + entry ?Y k 0))" for t
    using tanh_ux_sum_x[OF assms(1,2) is_col_put[OF assms(3), of i 0 t] assms(4)]
      sum_put[OF assms(3) i, of "\<lambda>k v. dtanh (v + entry ?Y k 0)" t]
    by simp
  moreover have "((\<lambda>t. dtanh (t + entry ?Y i 0)
          + (\<Sum>k \<in> {..<N} - {i}. dtanh (entry ?X k 0 + entry ?Y k 0)))
        has_real_derivative ddtanh (entry ?X i 0 + entry ?Y i 0)) (at (entry ?X i 0))"
    by (rule deriv_add_const) (rule DERIV_dtanh_shift)
  ultimately show "((\<lambda>t. ux_sum_x ideal_autograd tanh_self tanh_store x y [put ?X i j t])
        has_real_derivative entry (mk N 1 (\<lambda>i j. ddtanh (entry ?X i 0 + entry ?Y i 0))) i j)
        (at (entry ?X i j))"
    using i j by simp
qed

lemma tanh_second_y:
  assumes "requires_grad x" "requires_grad y" "is_col N (data x)" "is_col N (data y)"
  shows "is_gradient (\<lambda>v. uy_sum_y ideal_autograd tanh_self tanh_store x y [v]) (data y)
           (mk N 1 (\<lambda>i j. ddtanh (entry (data x) i 0 + entry (data y) i 0)))"
  unfolding is_gradient_def
proof (intro conjI allI impI)
  let ?X = "data x" and ?Y = "data y"
  show "shape (mk N 1 (\<lambda>i j. ddtanh (entry ?X i 0 + entry ?Y i 0))) = shape ?Y"
    using assms(4) by (simp add: is_colD)
  show "wf_array (mk N 1 (\<lambda>i j. ddtanh (entry ?X i 0 + entry ?Y i 0)))" by simp
  fix i j assume "i < nrows ?Y" "j < ncols ?Y"
  then have i: "i < N" and j: "j = 0" using assms(4) by (simp_all add: is_colD)
  have "uy_sum_y ideal_autograd tanh_self tanh_store x y [put ?Y i 0 t]
        = dtanh (t + entry ?X i 0)
          + (\<Sum>k \<in> {..<N} - {i}. dtanh (entry ?Y k 0 + entry ?X k 0))" for t
    using tanh_uy_sum_y[OF assms(1,2,3) is_col_put[OF assms(4), of i 0 t]]
      sum_put[OF assms(4) i, of "\<lambda>k v. dtanh (v + entry ?X k 0)" t]
    by simp
  moreover have "((\<lambda>t. dtanh (t + entry ?X i 0)
          + (\<Sum>k \<in> {..<N} - {i}. dtanh (entry ?Y k 0 + entry ?X k 0)))
        has_real_derivative ddtanh (entry ?Y i 0 + entry ?X i 0)) (at (entry ?Y i 0))"
    by (rule deriv_add_const) (rule DERIV_dtanh_shift)
  moreover have "ddtanh (entry ?Y i 0 + entry ?X i 0) = ddtanh (entry ?X i 0 + entry ?Y i 0)"
    by (simp add: add.commute)
  ultimately show "((\<lambda>t. uy_sum_y ideal_autograd tanh_self tanh_store x y [put ?Y i j t])
        has_real_derivative entry (mk N 1 (\<lambda>i j. ddtanh (entry ?X i 0 + entry ?Y i 0))) i j)
        (at (entry ?Y i j))"
    using i j by simp
qed

lemma tanh_exact_second:
  assumes "requires_grad x" "requires_grad y" "is_col N (data x)" "is_col N (data y)"
  shows "exact_second ideal_autograd tanh_self tanh_store x y"
  unfolding exact_second_def
  using grad_ok_ideal[OF tanh_second_x[OF assms]] grad_ok_ideal[OF tanh_second_y[OF assms]]
  by simp

lemma tanh_net_f:
  assumes "requires_grad x" "requires_grad y" "is_col N (data x)" "is_col N (data y)"
  shows "net_f ideal_autograd tanh_self tanh_store x y
         = Inr (result (mk N 1 (\<lambda>i j. 2 * ddtanh (entry (data x) i 0 + entry (data y) i 0))) True)"
proof -
  let ?g = "mk N 1 (\<lambda>i j. ddtanh (entry (data x) i 0 + entry (data y) i 0))"
  let ?d = "mk N 1 (\<lambda>i j. dtanh (entry (data x) i 0 + entry (data y) i 0))"
  have du: "net_du ideal_autograd tanh_self tanh_store x y = Inr (result ?d True, result ?d True)"
    using tanh_net_du[OF assms, of] by simp
  have "mk N 1 (\<lambda>i j. entry ?g i j + entry ?g i j)
      = mk N 1 (\<lambda>i j. 2 * ddtanh (entry (data x) i 0 + entry (data y) i 0))"
    by (rule mk_cong) simp
  then have addf: "torch_add (result ?g True) (result ?g True)
      = Inr (result (mk N 1 (\<lambda>i j. 2 * ddtanh (entry (data x) i 0 + entry (data y) i 0))) True)"
    using add_same_shape[of ?g ?g] by (simp add: torch_add_def lift2_def)
  show ?thesis
    using assms(1,2) hidden_tanh addf
    by (simp add: net_f_def du autograd_grad_def getidx_def
        ideal_single[OF tanh_second_x[OF assms]] ideal_single[OF tanh_second_y[OF assms]])
qed

lemma pt2_simps: "requires_grad pt2" "is_col 2 (data pt2)"
  "entry (data pt2) 0 0 = 0" "entry (data pt2) 1 0 = 1"
  by (simp_all add: pt2_def leaf_def new_leaf_def is_col_def shape_def nrows_def wf_array_def
      entry_def)

lemma scalar_net1: "scalar_net net_self net_store"
proof -
  have "layer_shapes [2, 1] (map data (the_weights net_self net_store))
          (map data (the_biases net_self net_store))"
    by (simp add: layer_shapes_def the_weights_def the_biases_def net_self_def net_store_def
        leaf_def new_leaf_def shape_def nrows_def)
  moreover have "the_weights net_self net_store \<noteq> []"
    by (simp add: the_weights_def net_self_def)
  ultimately show ?thesis
    unfolding scalar_net_def by (intro conjI exI[of _ "[2, 1]"]) simp_all
qed

lemma point_u1: "point_u net_self net_store p q = p + q"
  by (simp add: point_u_def mlp_def affine_def columns_def the_weights_def the_biases_def
      net_self_def net_store_def leaf_def new_leaf_def numeral_2_eq_2)
     (simp add: entry_def)

lemma is_col_pt: "is_col 1 (data pt)"
  by (simp add: pt_def leaf_def new_leaf_def is_col_def shape_def wf_array_def nrows_def)

lemma lin_first_x:
  assumes "is_col N a" "is_col N b"
  shows "is_gradient (\<lambda>v. u_sum_x net_self net_store x (y\<lparr>data := b\<rparr>) [v]) a
           (mk N 1 (\<lambda>i j. 1))"
  unfolding is_gradient_def
proof (intro conjI allI impI)
  show "shape (mk N 1 (\<lambda>i j. 1)) = shape a" using assms(1) by (simp add: is_colD)
  show "wf_array (mk N 1 (\<lambda>i j. 1))" by simp
  fix i j assume "i < nrows a" "j < ncols a"
  then have i: "i < N" and j: "j = 0" using assms(1) by (simp_all add: is_colD)
  have "u_sum_x net_self net_store x (y\<lparr>data := b\<rparr>) [put a i 0 t]
        = t + (entry b i 0
               + (\<Sum>k \<in> {..<N} - {i}. point_u net_self net_store (entry a k 0) (entry b k 0)))"
    for t
    using u_sum_x_eq[OF scalar_net1 is_col_put[OF assms(1), of i 0 t] assms(2), of x y]
    by (simp add: usum_put_x[OF assms(1) i] point_u1)
  moreover have "((\<lambda>t. t + (entry b i 0
               + (\<Sum>k \<in> {..<N} - {i}. point_u net_self net_store (entry a k 0) (entry b k 0))))
        has_real_derivative 1) (at (entry a i 0))"
    by (rule deriv_add_const) (rule DERIV_ident)
  ultimately show "((\<lambda>t. u_sum_x net_self net_store x (y\<lparr>data := b\<rparr>) [put a i j t])
        has_real_derivative entry (mk N 1 (\<lambda>i j. 1)) i j) (at (entry a i j))"
    using i j by simp
qed

lemma lin_first_y:
  assumes "is_col N a" "is_col N b"
  shows "is_gradient (\<lambda>v. u_sum_y net_self net_store (x\<lparr>data := a\<rparr>) y [v]) b
           (mk N 1 (\<lambda>i j. 1))"
  unfolding is_gradient_def
proof (intro conjI allI impI)
  show "shape (mk N 1 (\<lambda>i j. 1)) = shape b" using assms(2) by (simp add: is_colD)
  show "wf_array (mk N 1 (\<lambda>i j. 1))" by simp
  fix i j assume "i < nrows b" "j < ncols b"
  then have i: "i < N" and j: "j = 0" using assms(2) by (simp_all add: is_colD)
  have "u_sum_y net_self net_store (x\<lparr>data := a\<rparr>) y [put b i 0 t]
        = t + (entry a i 0
               + (\<Sum>k \<in> {..<N} - {i}. point_u net_self net_store (entry a k 0) (entry b k 0)))"
    for t
    using u_sum_y_eq[OF scalar_net1 assms(1) is_col_put[OF assms(2), of i 0 t], of x y]
    by (simp add: usum_put_y[OF assms(2) i] point_u1)
  moreover have "((\<lambda>t. t + (entry a i 0
               + (\<Sum>k \<in> {..<N} - {i}. point_u net_self net_store (entry a k 0) (entry b k 0))))
        has_real_derivative 1) (at (entry b i 0))"
    by (rule deriv_add_const) (rule DERIV_ident)
  ultimately show "((\<lambda>t. u_sum_y net_self net_store (x\<lparr>data := a\<rparr>) y [put b i j t])
        has_real_derivative entry (mk N 1 (\<lambda>i j. 1)) i j) (at (entry b i j))"
    using i j by simp
qed

lemma lin_exact_first: "exact_first ideal_autograd net_self net_store x y N"
  unfolding exact_first_def
  using grad_ok_ideal[OF lin_first_x] grad_ok_ideal[OF lin_first_y] by blast

lemma lin_net_du_cols:
  assumes "requires_grad x" "requires_grad y" "is_col N a" "is_col N b"
  shows "net_du ideal_autograd net_self net_store (x\<lparr>data := a\<rparr>) (y\<lparr>data := b\<rparr>)
         = Inr (result (mk N 1 (\<lambda>i j. 1)) True, result (mk N 1 (\<lambda>i j. 1)) True)"
  by (rule net_du_columns[OF scalar_net1 assms
        ideal_single[OF lin_first_x[OF assms(3,4)]] ideal_single[OF lin_first_y[OF assms(3,4)]]])

lemma lin_net_du:
  "net_du ideal_autograd net_self net_store pt pt
     = Inr (result (Array 1 [[1]]) True, result (Array 1 [[1]]) True)"
proof -
  have e: "pt\<lparr>data := data pt\<rparr> = pt" by simp
  have m: "mk 1 1 (\<lambda>i j. 1) = Array 1 [[1]]" by (simp add: mk_def)
  from lin_net_du_cols[OF rg_pt(1) rg_pt(1) is_col_pt is_col_pt]
  show ?thesis by (simp only: e m)
qed

lemma net_f_no_hidden:
  assumes "hidden_layers self = 0"
  shows "net_f G self s x y \<noteq> Inr f"
    and "net_du G self s x y = Inr d \<Longrightarrow> net_f G self s x y = Inl RuntimeError"
  using assms
  by (auto simp: net_f_def autograd_grad_def ebind_def split: sum.splits)

section \<open>The claims\<close>

text \<open>
  C1 as stated fails. For a network without hidden layer the first derivatives do not
  depend on the inputs, so their graph does not reach \<open>y\<close>, and the second
  differentiation raises: on the one-layer network \<open>u = x + y\<close>, with exact
  differentiation and a gradient-tracked column of one row for \<open>x\<close> and \<open>y\<close>,
  \<^verbatim>\<open>net_du\<close> returns the first derivatives, both 1, and \<^verbatim>\<open>net_f\<close> raises
  \<^verbatim>\<open>RuntimeError\<close>. No differentiation makes \<^verbatim>\<open>net_f\<close> return on this network.
\<close>

theorem net_f_single_layer_counterexample:
  "scalar_net net_self net_store \<and> requires_grad pt \<and> is_col 1 (data pt) \<and>
   exact_first ideal_autograd net_self net_store pt pt 1 \<and>
   net_du ideal_autograd net_self net_store pt pt
     = Inr (result (Array 1 [[1]]) True, result (Array 1 [[1]]) True) \<and>
   net_f ideal_autograd net_self net_store pt pt = Inl RuntimeError \<and>
   (\<forall>G. \<not> (\<exists>f. net_f G net_self net_store pt pt = Inr f))"
proof -
  have h: "hidden_layers net_self = 0" by (simp add: hidden_layers_def net_self_def)
  show ?thesis
    using scalar_net1 rg_pt(1) is_col_pt lin_exact_first lin_net_du
      net_f_no_hidden(2)[OF h lin_net_du] net_f_no_hidden(1)[OF h]
    by blast
qed

text \<open>
  C1, amended. Let the network map two inputs to one output through at least one
  hidden layer, let \<open>x\<close> and \<open>y\<close> be gradient-tracked columns of \<open>N\<close> rows, and let
  PyTorch's differentiation be exact on the four scalars \<^verbatim>\<open>net_f\<close> has it
  differentiate: \<^verbatim>\<open>u.sum()\<close> against \<open>x\<close> and against \<open>y\<close>, \<^verbatim>\<open>u_x.sum()\<close> against \<open>x\<close>,
  \<^verbatim>\<open>u_y.sum()\<close> against \<open>y\<close>. Then \<^verbatim>\<open>net_f\<close> returns a tensor of shape \<open>(N, 1)\<close> that
  requires gradients and is a node of the graph, and its entry in row \<open>i\<close> is the sum
  of the second partial derivative in \<open>y\<close> and the second partial derivative in \<open>x\<close> of
  the network's output \<open>u\<close>, taken at the point \<open>(x\<^sub>i, y\<^sub>i)\<close>: differentiating the sum
  over all rows gives each row its own derivative, twice.
\<close>

theorem net_f_laplacian:
  assumes "scalar_net self s" and "0 < hidden_layers self"
    and "requires_grad x" and "requires_grad y"
    and "is_col N (data x)" and "is_col N (data y)"
    and "exact_first G self s x y N" and "exact_second G self s x y"
  shows "\<exists>f. net_f G self s x y = Inr f \<and> requires_grad f \<and> grad_fn f \<and>
           shape (data f) = (N, 1) \<and>
           (\<forall>i < N. \<exists>dxx dyy.
              second_derivative (\<lambda>p. point_u self s p (entry (data y) i 0)) (entry (data x) i 0) dxx \<and>
              second_derivative (\<lambda>q. point_u self s (entry (data x) i 0) q) (entry (data y) i 0) dyy \<and>
              entry (data f) i 0 = dyy + dxx)"
  by (rule net_f_laplacian_aux[OF assms(1,3,4,5,6,2,7,8)])

theorem net_f_laplacian_witness:
  "scalar_net tanh_self tanh_store \<and> 0 < hidden_layers tanh_self \<and> requires_grad pt2 \<and>
   is_col 2 (data pt2) \<and>
   exact_first ideal_autograd tanh_self tanh_store pt2 pt2 2 \<and>
   exact_second ideal_autograd tanh_self tanh_store pt2 pt2 \<and>
   (\<exists>f. net_f ideal_autograd tanh_self tanh_store pt2 pt2 = Inr f \<and> requires_grad f \<and>
        grad_fn f \<and> shape (data f) = (2, 1) \<and>
        entry (data f) 0 0 = 0 \<and> entry (data f) 1 0 = - 4 * tanh 2 * (1 - (tanh 2)\<^sup>2))"
proof -
  note e1 = tanh_exact_first[of pt2 pt2 2]
  note e2 = tanh_exact_second[OF pt2_simps(1) pt2_simps(1) pt2_simps(2) pt2_simps(2)]
  from net_f_laplacian[OF scalar_net_tanh hidden_tanh pt2_simps(1) pt2_simps(1) pt2_simps(2)
      pt2_simps(2) e1 e2]
  obtain f where f: "net_f ideal_autograd tanh_self tanh_store pt2 pt2 = Inr f"
    "requires_grad f" "grad_fn f" "shape (data f) = (2, 1)" by blast
  have v: "f = result (mk 2 1 (\<lambda>i j. 2 * ddtanh (entry (data pt2) i 0 + entry (data pt2) i 0))) True"
    using f(1) tanh_net_f[OF pt2_simps(1) pt2_simps(1) pt2_simps(2) pt2_simps(2)] by simp
  have "entry (data f) 0 0 = 0" "entry (data f) 1 0 = - 4 * tanh 2 * (1 - (tanh 2)\<^sup>2)"
    by (simp_all add: v pt2_simps pt2_simps(4)[simplified] ddtanh_def)
  then show ?thesis
    using scalar_net_tanh hidden_tanh pt2_simps(1,2) e1 e2 f by blast
qed

text \<open>
  C2, the defect. With the \<^verbatim>\<open>keys\<close> argument omitted \<^verbatim>\<open>forward\<close> never returns a bundle:
  the local \<^verbatim>\<open>preds\<close> is unbound on that path. For the point sets of the single role
  \<open>u\<close> the network is evaluated and the assignment to \<^verbatim>\<open>preds\<close> raises
  \<^verbatim>\<open>UnboundLocalError\<close>.
\<close>

theorem forward_keys_omitted:
  "forward G self s xt yt None \<noteq> Inr pd \<and>
   forward echo_autograd net_self net_store [(''u'', pt)] [(''u'', pt)] None
     = Inl (UnboundLocalError ''preds'')"
  by (simp add: forward_def forward_loop_unbound getitem_def net_u_single)

text \<open>
  C3, as the code has it. The loop runs over the roles of the prediction bundle only.
  When every one of them has a prediction with at least one element, a target of the
  same shape and a weight, \<^verbatim>\<open>loss_func\<close> returns the sum over these roles of the
  weight (1 by default) times the mean squared difference; roles that only the
  targets have are ignored. When the roles before \<open>k\<close> are in order and \<open>k\<close> has no
  target, it raises \<^verbatim>\<open>KeyError\<close> for \<open>k\<close>.
\<close>

theorem loss_func_roles:
  assumes "distinct (map fst pd)"
  shows "(list_all (role_ok td w) pd \<longrightarrow>
            loss_func pd td w = Inr (Num (\<Sum>e\<leftarrow>pd. role_term td w e))) \<and>
         (pd = pre @ (k, p) # post \<and> list_all (role_ok td w) pre \<and> map_of td k = None \<longrightarrow>
            loss_func pd td w = Inl (KeyError k))"
proof (intro conjI impI)
  assume "list_all (role_ok td w) pd"
  then show "loss_func pd td w = Inr (Num (\<Sum>e\<leftarrow>pd. role_term td w e))"
    using loss_loop_ok[OF assms, of pd td w 0] by (simp add: loss_func_loop)
next
  assume h: "pd = pre @ (k, p) # post \<and> list_all (role_ok td w) pre \<and> map_of td k = None"
  then have pd: "pd = pre @ (k, p) # post" and pre: "list_all (role_ok td w) pre"
    and miss: "map_of td k = None" by simp_all
  have sub: "set pre \<subseteq> set pd" using pd by auto
  have "(k, p) \<in> set pd" using pd by simp
  then have look: "map_of pd k = Some p" using assms by simp
  have "loss_loop pd td (weights_dict pd w) (map fst pre @ k # map fst post) (Num 0)
      = loss_loop pd td (weights_dict pd w) (k # map fst post)
          (Num (0 + (\<Sum>e\<leftarrow>pre. role_term td w e)))"
    by (simp only: loss_loop_append loss_loop_ok[OF assms sub pre] ebind_Inr)
  also have "\<dots> = Inl (KeyError k)"
    by (rule loss_loop_missing[OF look miss])
  finally show "loss_func pd td w = Inl (KeyError k)"
    by (simp add: loss_func_loop pd)
qed

theorem loss_func_roles_witness:
  "distinct (map fst pd0) \<and> list_all (role_ok td0 None) pd0 \<and>
   loss_func pd0 td0 None = Inr (Num (\<Sum>e\<leftarrow>pd0. role_term td0 None e)) \<and>
   pd0 = [] @ (''diri'', Some (leaf [[1]] 1)) # [] \<and> list_all (role_ok [] None) [] \<and>
   map_of ([] :: tdict) ''diri'' = None \<and>
   loss_func pd0 [] None = Inl (KeyError ''diri'')"
proof -
  have d: "distinct (map fst pd0)" by (simp add: pd0_def)
  have ok: "list_all (role_ok td0 None) pd0"
    by (simp add: pd0_def td0_def role_ok_def leaf_def new_leaf_def shape_def nrows_def)
  have sp: "pd0 = [] @ (''diri'', Some (leaf [[1]] 1)) # []" by (simp add: pd0_def)
  show ?thesis
    using loss_func_roles[OF d, of td0 None "[]" "''diri''" "Some (leaf [[1]] 1)" "[]"]
      loss_func_roles[OF d, of "[]" None "[]" "''diri''" "Some (leaf [[1]] 1)" "[]"] d ok sp
    by simp
qed

text \<open>
  C3 as stated fails: the targets have a role the predictions lack, the key sets
  differ, and \<^verbatim>\<open>loss_func\<close> returns a loss.
\<close>

theorem loss_func_extra_target_counterexample:
  "set (map fst pd0) \<noteq> set (map fst td0) \<and> loss_func pd0 td0 None = Inr (Num 4)"
proof -
  have "distinct (map fst pd0)" by (simp add: pd0_def)
  moreover have "list_all (role_ok td0 None) pd0"
    by (simp add: pd0_def td0_def role_ok_def leaf_def new_leaf_def shape_def nrows_def)
  ultimately have "loss_func pd0 td0 None = Inr (Num (\<Sum>e\<leftarrow>pd0. role_term td0 None e))"
    using loss_loop_ok[of pd0 pd0 td0 None 0] by (simp add: loss_func_loop)
  moreover have "(\<Sum>e\<leftarrow>pd0. role_term td0 None e) = 4"
    by (simp add: pd0_def td0_def role_term_def weight_of_def mse_def leaf_def new_leaf_def
        nrows_def entry_def)
  moreover have "set (map fst pd0) \<noteq> set (map fst td0)"
    by (auto simp: pd0_def td0_def)
  ultimately show ?thesis by simp
qed

text \<open>
  C4, the defect. \<^verbatim>\<open>train\<close> reads the global \<^verbatim>\<open>train_dict\<close> instead of the data it is
  handed: where the module has no such global it raises \<^verbatim>\<open>NameError\<close> before the first
  iteration, whatever the epoch count and the data arguments.
\<close>

theorem train_without_global:
  "train G None self s epoch u_data f_data bc_data lf opt ost = Inl (NameError ''train_dict'')"
  by (simp add: train_def)

text \<open>
  C5 as stated fails: for the layer sizes \<open>[0, 0]\<close>, a sequence of length 2, the
  initialiser of the one weight divides by \<open>fan_in + fan_out = 0\<close> and
  \<^verbatim>\<open>initialize_NN\<close> raises \<^verbatim>\<open>ZeroDivisionError\<close>.
\<close>

theorem initialize_NN_zero_widths_counterexample:
  "2 \<le> length [0, 0 :: nat] \<and>
   initialize_NN [0, 0] (\<lambda>k. 1) store0 = Inl ZeroDivisionError"
  by (simp add: initialize_NN_def xavier_init_raises ebind_def)

text \<open>
  C5, amended. For every layer-size sequence of length at least 2 in which no two
  consecutive sizes are both 0, \<^verbatim>\<open>initialize_NN\<close> returns \<open>len(layers) - 1\<close> weight
  tensors and as many bias tensors; the \<open>l\<close>-th weight has shape
  \<open>(layers[l], layers[l+1])\<close>, the \<open>l\<close>-th bias has shape \<open>(1, layers[l+1])\<close> and every
  entry of it is 0, and every one of them requires gradients. When two consecutive
  sizes are both 0 it raises \<^verbatim>\<open>ZeroDivisionError\<close>.
\<close>

theorem initialize_NN_shapes:
  assumes "2 \<le> length lay"
  shows "((\<forall>l < length lay - 1. 0 < lay ! l + lay ! (l + 1)) \<longrightarrow>
          (\<exists>ws bs g' s'. initialize_NN lay g s = Inr ((ws, bs), g', s') \<and>
             length ws = length lay - 1 \<and> length bs = length lay - 1 \<and>
             (\<forall>l < length lay - 1.
                shape (data (cells s' (ws ! l))) = (lay ! l, lay ! (l + 1)) \<and>
                shape (data (cells s' (bs ! l))) = (1, lay ! (l + 1)) \<and>
                wf_array (data (cells s' (bs ! l))) \<and>
                (\<forall>j < lay ! (l + 1). entry (data (cells s' (bs ! l))) 0 j = 0) \<and>
                requires_grad (cells s' (ws ! l)) \<and> requires_grad (cells s' (bs ! l))))) \<and>
         ((\<exists>l < length lay - 1. lay ! l + lay ! (l + 1) = 0) \<longrightarrow>
          initialize_NN lay g s = Inl ZeroDivisionError)"
proof (intro conjI impI)
  let ?n = "length lay - 1"
  assume pos: "\<forall>l < ?n. 0 < lay ! l + lay ! (l + 1)"
  then have "\<forall>k < length [0..<?n]. 0 < lay ! ([0..<?n] ! k) + lay ! ([0..<?n] ! k + 1)"
    by simp
  from init_loop_returns[OF this, of "[]" "[]" g s] obtain ws bs g' s' where
    run: "init_loop lay [0..<?n] [] [] g s = Inr ((ws, bs), g', s')"
    by (metis prod.exhaust)
  note I = init_loop_inv[OF run]
  have ws: "ws = map (\<lambda>k. fresh s + 2 * k) [0..<?n]"
    and bs: "bs = map (\<lambda>k. fresh s + 2 * k + 1) [0..<?n]"
    using I by simp_all
  have each: "\<And>k. k < ?n \<Longrightarrow>
      shape (data (cells s' (fresh s + 2 * k))) = (lay ! k, lay ! (k + 1)) \<and>
      requires_grad (cells s' (fresh s + 2 * k)) \<and>
      cells s' (fresh s + 2 * k + 1) = new_leaf (zeros 1 (lay ! (k + 1))) True"
    using I by simp
  have "length ws = ?n \<and> length bs = ?n \<and>
        (\<forall>l < ?n.
           shape (data (cells s' (ws ! l))) = (lay ! l, lay ! (l + 1)) \<and>
           shape (data (cells s' (bs ! l))) = (1, lay ! (l + 1)) \<and>
           wf_array (data (cells s' (bs ! l))) \<and>
           (\<forall>j < lay ! (l + 1). entry (data (cells s' (bs ! l))) 0 j = 0) \<and>
           requires_grad (cells s' (ws ! l)) \<and> requires_grad (cells s' (bs ! l)))"
  proof (intro conjI allI impI)
    show "length ws = ?n" "length bs = ?n" using ws bs by simp_all
  next
    fix l assume l: "l < ?n"
    have w: "ws ! l = fresh s + 2 * l" and b: "bs ! l = fresh s + 2 * l + 1"
      using l ws bs by simp_all
    have c: "cells s' (bs ! l) = new_leaf (zeros 1 (lay ! (l + 1))) True"
      using each[OF l] b by simp
    show "shape (data (cells s' (ws ! l))) = (lay ! l, lay ! (l + 1))"
      using each[OF l] w by simp
    show "shape (data (cells s' (bs ! l))) = (1, lay ! (l + 1))"
      by (simp add: c new_leaf_def zeros_def)
    show "wf_array (data (cells s' (bs ! l)))"
      by (simp add: c new_leaf_def zeros_def)
    show "requires_grad (cells s' (ws ! l))" using each[OF l] w by simp
    show "requires_grad (cells s' (bs ! l))" by (simp add: c new_leaf_def)
    fix j assume "j < lay ! (l + 1)"
    then show "entry (data (cells s' (bs ! l))) 0 j = 0"
      by (simp add: c new_leaf_def zeros_def)
  qed
  then show "\<exists>ws bs g' s'. initialize_NN lay g s = Inr ((ws, bs), g', s') \<and>
             length ws = ?n \<and> length bs = ?n \<and>
             (\<forall>l < ?n.
                shape (data (cells s' (ws ! l))) = (lay ! l, lay ! (l + 1)) \<and>
                shape (data (cells s' (bs ! l))) = (1, lay ! (l + 1)) \<and>
                wf_array (data (cells s' (bs ! l))) \<and>
                (\<forall>j < lay ! (l + 1). entry (data (cells s' (bs ! l))) 0 j = 0) \<and>
                requires_grad (cells s' (ws ! l)) \<and> requires_grad (cells s' (bs ! l)))"
    using run unfolding initialize_NN_def by blast
next
  let ?n = "length lay - 1"
  assume "\<exists>l < ?n. lay ! l + lay ! (l + 1) = 0"
  then obtain l where l: "l < ?n \<and> lay ! l + lay ! (l + 1) = 0" ..
  have "l < length [0..<?n] \<and> lay ! ([0..<?n] ! l) + lay ! ([0..<?n] ! l + 1) = 0"
    using l by simp
  then have "\<exists>k < length [0..<?n]. lay ! ([0..<?n] ! k) + lay ! ([0..<?n] ! k + 1) = 0"
    ..
  from init_loop_raises[OF this]
  show "initialize_NN lay g s = Inl ZeroDivisionError"
    by (simp add: initialize_NN_def)
qed

theorem initialize_NN_shapes_witness:
  "2 \<le> length [2, 3, 1 :: nat] \<and> 0 < [2, 3, 1 :: nat] ! 0 + [2, 3, 1] ! 1 \<and>
   0 < [2, 3, 1 :: nat] ! 1 + [2, 3, 1] ! 2 \<and>
   (\<exists>ws bs g' s'. initialize_NN [2, 3, 1] (\<lambda>k. 1) store0 = Inr ((ws, bs), g', s') \<and>
      length ws = 2 \<and> length bs = 2 \<and>
      shape (data (cells s' (ws ! 0))) = (2, 3) \<and> shape (data (cells s' (bs ! 1))) = (1, 1) \<and>
      entry (data (cells s' (bs ! 0))) 0 2 = 0) \<and>
   2 \<le> length [3, 0, 0 :: nat] \<and> [3, 0, 0 :: nat] ! 1 + [3, 0, 0] ! 2 = 0 \<and>
   initialize_NN [3, 0, 0] (\<lambda>k. 1) store0 = Inl ZeroDivisionError"
proof -
  have h: "2 \<le> length [2, 3, 1 :: nat]" by simp
  have p: "\<forall>l < length [2, 3, 1 :: nat] - 1. 0 < [2, 3, 1 :: nat] ! l + [2, 3, 1] ! (l + 1)"
    by (auto simp: less_Suc_eq)
  from initialize_NN_shapes[OF h, of "\<lambda>k. 1" store0] p
  obtain ws bs g' s' where
    r: "initialize_NN [2, 3, 1] (\<lambda>k. 1) store0 = Inr ((ws, bs), g', s')"
    and n: "length ws = length [2, 3, 1 :: nat] - 1" "length bs = length [2, 3, 1 :: nat] - 1"
    and e: "\<forall>l < length [2, 3, 1 :: nat] - 1.
                shape (data (cells s' (ws ! l))) = ([2, 3, 1] ! l, [2, 3, 1] ! (l + 1)) \<and>
                shape (data (cells s' (bs ! l))) = (1, [2, 3, 1] ! (l + 1)) \<and>
                wf_array (data (cells s' (bs ! l))) \<and>
                (\<forall>j < [2, 3, 1] ! (l + 1). entry (data (cells s' (bs ! l))) 0 j = 0) \<and>
                requires_grad (cells s' (ws ! l)) \<and> requires_grad (cells s' (bs ! l))"
    by blast
  have e0: "shape (data (cells s' (ws ! 0))) = (2, 3)"
    "entry (data (cells s' (bs ! 0))) 0 2 = 0"
    using e[rule_format, of 0] by simp_all
  have e1: "shape (data (cells s' (bs ! 1))) = (1, 1)"
    using e[rule_format, of 1] by simp
  have h2: "2 \<le> length [3, 0, 0 :: nat]" by simp
  have z: "\<exists>l < length [3, 0, 0 :: nat] - 1. [3, 0, 0 :: nat] ! l + [3, 0, 0] ! (l + 1) = 0"
    by (intro exI[of _ 1]) simp
  have r2: "initialize_NN [3, 0, 0] (\<lambda>k. 1) store0 = Inl ZeroDivisionError"
    using initialize_NN_shapes[OF h2, of "\<lambda>k. 1" store0] z by blast
  show ?thesis using r n e0 e1 r2 by auto
qed

text \<open>
  C6. For a network of \<open>k \<ge> 1\<close> weight/bias pairs whose shapes chain from width 2, and
  \<open>N\<close>-row column inputs, \<^verbatim>\<open>neural_net\<close> returns without raising; its value is the
  network of the specification (the columns side by side, \<open>tanh\<close> after every pair but
  the last, the last pair affine), of shape \<open>(N, w)\<close> for the final width \<open>w\<close>, so
  \<open>(N, 1)\<close> when the final width is 1.
\<close>

theorem neural_net_spec:
  assumes "ws \<noteq> []" and "layer_shapes dims (map data ws) (map data bs)" and "dims ! 0 = 2"
    and "shape (data x) = (N, 1)" and "shape (data y) = (N, 1)"
  shows "\<exists>Y. neural_net x y ws bs = Inr Y \<and>
           data Y = mlp (data x) (data y) (map data ws) (map data bs) \<and>
           shape (data Y) = (N, last dims)"
  using assms by (rule neural_net_value)

theorem neural_net_spec_witness:
  "[leaf [[1, 0], [0, 1]] 2, leaf [[1], [1]] 1] \<noteq> [] \<and>
   layer_shapes [2, 2, 1]
     (map data [leaf [[1, 0], [0, 1]] 2, leaf [[1], [1]] 1])
     (map data [leaf [[0, 0]] 2, leaf [[3]] 1]) \<and>
   shape (data (leaf [[0]] 1)) = (1, 1) \<and>
   (\<exists>Y. neural_net (leaf [[0]] 1) (leaf [[0]] 1)
          [leaf [[1, 0], [0, 1]] 2, leaf [[1], [1]] 1] [leaf [[0, 0]] 2, leaf [[3]] 1] = Inr Y \<and>
        shape (data Y) = (1, 1))"
proof -
  have a: "[leaf [[1, 0], [0, 1]] 2, leaf [[1], [1]] 1] \<noteq> []" by simp
  have b: "layer_shapes [2, 2, 1]
     (map data [leaf [[1, 0], [0, 1]] 2, leaf [[1], [1]] 1])
     (map data [leaf [[0, 0]] 2, leaf [[3]] 1])"
    by (simp add: layer_shapes_def leaf_def new_leaf_def shape_def nrows_def less_Suc_eq
        numeral_2_eq_2)
  have c: "[2, 2, 1 :: nat] ! 0 = 2" by simp
  have d: "shape (data (leaf [[0]] 1)) = (1, 1)"
    by (simp add: leaf_def new_leaf_def shape_def nrows_def)
  show ?thesis
    using neural_net_spec[OF a b c d d] a b d by auto
qed

text \<open>
  C7. For bounds with \<open>ub \<noteq> lb\<close> on every axis, \<^verbatim>\<open>coor_shift\<close> returns the affine map
  \<open>2 (X - lb) / (ub - lb) - 1\<close> entry by entry; an entry at the lower bound of its axis
  goes to \<open>-1\<close> and one at the upper bound to \<open>1\<close>.
\<close>

theorem coor_shift_bounds:
  assumes "ncols X = length lbs" and "length ubs = length lbs"
    and "\<forall>j < length lbs. ubs ! j \<noteq> lbs ! j"
  shows "\<exists>R. coor_shift X lbs ubs = Inr R \<and> shape R = (nrows X, length lbs) \<and>
           (\<forall>i < nrows X. \<forall>j < length lbs.
              entry R i j = 2 * (entry X i j - lbs ! j) / (ubs ! j - lbs ! j) - 1 \<and>
              (entry X i j = lbs ! j \<longrightarrow> entry R i j = - 1) \<and>
              (entry X i j = ubs ! j \<longrightarrow> entry R i j = 1))"
proof -
  let ?R = "mk (nrows X) (length lbs) (\<lambda>i j. 2 * (entry X i j - lbs ! j) / (ubs ! j - lbs ! j) - 1)"
  have "coor_shift X lbs ubs = Inr ?R"
    by (rule coor_shift_value[OF assms(1,2)])
  moreover have "shape ?R = (nrows X, length lbs)" by simp
  moreover have "\<forall>i < nrows X. \<forall>j < length lbs.
              entry ?R i j = 2 * (entry X i j - lbs ! j) / (ubs ! j - lbs ! j) - 1 \<and>
              (entry X i j = lbs ! j \<longrightarrow> entry ?R i j = - 1) \<and>
              (entry X i j = ubs ! j \<longrightarrow> entry ?R i j = 1)"
  proof (intro allI impI conjI)
    fix i j assume i: "i < nrows X" and j: "j < length lbs"
    have ne: "ubs ! j - lbs ! j \<noteq> 0" using assms(3) j by simp
    show "entry ?R i j = 2 * (entry X i j - lbs ! j) / (ubs ! j - lbs ! j) - 1"
      using i j by simp
    show "entry ?R i j = - 1" if "entry X i j = lbs ! j"
      using i j that by simp
    show "entry ?R i j = 1" if "entry X i j = ubs ! j"
    proof -
      have "2 * (ubs ! j - lbs ! j) / (ubs ! j - lbs ! j) = 2"
        by (rule nonzero_mult_div_cancel_right[OF ne])
      then show ?thesis using i j that by simp
    qed
  qed
  ultimately show ?thesis by blast
qed

theorem coor_shift_bounds_witness:
  "ncols (Array 2 [[0, 1], [1, 0]]) = length [0, 0 :: real] \<and>
   length [1, 1 :: real] = length [0, 0 :: real] \<and>
   [1, 1 :: real] ! 0 \<noteq> [0, 0] ! 0 \<and> [1, 1 :: real] ! 1 \<noteq> [0, 0] ! 1 \<and>
   (\<exists>R. coor_shift (Array 2 [[0, 1], [1, 0]]) [0, 0] [1, 1] = Inr R \<and>
        entry R 0 0 = - 1 \<and> entry R 0 1 = 1 \<and> entry R 1 0 = 1 \<and> entry R 1 1 = - 1)"
proof -
  have a: "ncols (Array 2 [[0, 1], [1, 0]]) = length [0, 0 :: real]" by simp
  have b: "length [1, 1 :: real] = length [0, 0 :: real]" by simp
  have c: "\<forall>j < length [0, 0 :: real]. [1, 1 :: real] ! j \<noteq> [0, 0] ! j"
    by (simp add: less_Suc_eq numeral_2_eq_2)
  obtain R where R: "coor_shift (Array 2 [[0, 1], [1, 0]]) [0, 0] [1, 1] = Inr R"
    and E: "\<forall>i < nrows (Array 2 [[0, 1], [1, 0]]). \<forall>j < length [0, 0 :: real].
              entry R i j = 2 * (entry (Array 2 [[0, 1], [1, 0]]) i j - [0, 0] ! j) / ([1, 1] ! j - [0, 0] ! j) - 1 \<and>
              (entry (Array 2 [[0, 1], [1, 0]]) i j = [0, 0] ! j \<longrightarrow> entry R i j = - 1) \<and>
              (entry (Array 2 [[0, 1], [1, 0]]) i j = [1, 1] ! j \<longrightarrow> entry R i j = 1)"
    using coor_shift_bounds[OF a b c] by blast
  have "entry R 0 0 = - 1" "entry R 0 1 = 1" "entry R 1 0 = 1" "entry R 1 1 = - 1"
    using E by (simp_all add: nrows_def entry_def)
  then show ?thesis using R by simp
qed

text \<open>
  C8. The loss history only grows at its end. One loss evaluation (the closure of
  \<^verbatim>\<open>train_LBFGS\<close>, one iteration of \<^verbatim>\<open>train\<close>) appends exactly the loss it computed.
  A run of \<^verbatim>\<open>train_LBFGS\<close> that made \<open>k\<close> closure evaluations, and a run of \<^verbatim>\<open>train\<close>
  over \<open>epoch\<close> iterations, leave the history they started from followed by
  \<open>k\<close>, respectively \<open>epoch\<close>, new entries: nothing is removed or replaced. The
  constructor leaves the history empty, so for a new model the length after the run
  is the number of evaluations.
\<close>

theorem loss_history_append_only:
  "(init lay g s0 = Inr r0 \<longrightarrow> loss_list (fst r0) = []) \<and>
   (evaluate G lf opt xt yt tt (self, s) = Inr (v, self1, s1) \<longrightarrow>
      loss_list self1 = loss_list self @ [v]) \<and>
   (train_LBFGS G self s td lf opt ost = Inr (k, ost', self', s') \<longrightarrow>
      (\<exists>new. loss_list self' = loss_list self @ new \<and> length new = k)) \<and>
   (train G gl self s epoch u_data f_data bc_data lf opt ost = Inr (ost'', self'', s'') \<longrightarrow>
      (\<exists>new. loss_list self'' = loss_list self @ new \<and> length new = nat epoch))"
  using evaluate_appends[of G lf opt xt yt tt "(self, s)" v self1 s1]
    train_LBFGS_hist[of G self s td lf opt ost k ost' self' s']
    train_hist[of G gl self s epoch u_data f_data bc_data lf opt ost ost'' self'' s'']
    init_hist[of lay g s0 r0]
  by auto

theorem loss_history_append_only_witness:
  "\<exists>r0 s1 self' s' self'' s''.
     init [2, 1, 1] (\<lambda>k. 1) store0 = Inr r0 \<and> loss_list (fst r0) = [] \<and>
     evaluate echo_autograd lf1 opt1 xt1 xt1 xt1 (tanh_self, tanh_store)
       = Inr (Num 0, callback tanh_self (Num 0), s1) \<and>
     loss_list (callback tanh_self (Num 0)) = loss_list tanh_self @ [Num 0] \<and>
     train_LBFGS echo_autograd tanh_self tanh_store td1 lf1 opt1 () = Inr (1, (), self', s') \<and>
     length (loss_list self') = 1 \<and>
     train echo_autograd (Some td1) tanh_self tanh_store 2 () () () lf1 opt1 ()
       = Inr ((), self'', s'') \<and>
     length (loss_list self'') = 2"
proof -
  from init_run obtain r0 where i: "init [2, 1, 1] (\<lambda>k. 1) store0 = Inr r0" by blast
  from evaluate1[OF net_ok0] obtain s1 where
    e: "evaluate echo_autograd lf1 opt1 xt1 xt1 xt1 (tanh_self, tanh_store)
          = Inr (Num 0, callback tanh_self (Num 0), s1)"
    by blast
  from train_LBFGS1 obtain self' s' where
    t: "train_LBFGS echo_autograd tanh_self tanh_store td1 lf1 opt1 () = Inr (1, (), self', s')"
    by blast
  from train1 obtain self'' s'' where
    u: "train echo_autograd (Some td1) tanh_self tanh_store 2 () () () lf1 opt1 ()
          = Inr ((), self'', s'')"
    by blast
  have n: "loss_list tanh_self = []" by (simp add: tanh_self_def)
  from loss_history_append_only[where G = echo_autograd and lf = lf1 and opt = opt1
      and xt = xt1 and yt = xt1 and tt = xt1 and self = tanh_self and s = tanh_store
      and v = "Num 0" and ?self1.0 = "callback tanh_self (Num 0)" and ?s1.0 = s1 and td = td1
      and ost = "()" and k = 1 and ost' = "()" and self' = self' and s' = s'
      and gl = "Some td1" and epoch = 2 and u_data = "()" and f_data = "()" and bc_data = "()"
      and ost'' = "()" and self'' = self'' and s'' = s'' and lay = "[2, 1, 1]"
      and g = "\<lambda>k. 1" and ?s0.0 = store0 and ?r0.0 = r0]
  have "loss_list (fst r0) = []"
    "loss_list (callback tanh_self (Num 0)) = loss_list tanh_self @ [Num 0]"
    "length (loss_list self') = 1" "length (loss_list self'') = 2"
    using i e t u n by auto
  then show ?thesis using i e t u by blast
qed



text \<open>
  C10. With the roles given explicitly, a requested role other than \<open>u\<close>, \<open>diri\<close>, \<open>nuem\<close>
  and \<open>f\<close> is skipped: in the bundle \<^verbatim>\<open>forward\<close> returns it is mapped to \<^verbatim>\<open>None\<close>; an error
  \<^verbatim>\<open>forward\<close> raises is raised without that role in the request as well; and a request
  of such roles only returns a bundle.
\<close>

theorem forward_unknown_role:
  assumes "k \<in> set ks" and "k \<notin> {''u'', ''diri'', ''nuem'', ''f''}"
  shows "(\<forall>pd. forward G self s xt yt (Some ks) = Inr pd \<longrightarrow> map_of pd k = Some None) \<and>
         (\<forall>e. forward G self s xt yt (Some ks) = Inl e \<longrightarrow>
              forward G self s xt yt (Some (removeAll k ks)) = Inl e) \<and>
         (set ks \<inter> {''u'', ''diri'', ''nuem'', ''f''} = {} \<longrightarrow>
            (\<exists>pd. forward G self s xt yt (Some ks) = Inr pd))"
proof -
  have nk: "\<not> known k" using assms(2) by (auto simp: known_def)
  let ?init = "\<lambda>ks. Some (fold (\<lambda>i d. AList.update i None d) ks [])"
  have 1: "map_of pd k = Some None" if "forward G self s xt yt (Some ks) = Inr pd" for pd
  proof -
    from that have "forward_loop G self s xt yt ks (?init ks) = Inr pd"
      by (simp add: forward_def)
    from forward_loop_frame[OF this] nk
    have "map_of pd k = map_of (fold (\<lambda>i d. AList.update i None d) ks []) k" by simp
    then show ?thesis using assms(1) by (simp add: map_of_fold_None)
  qed
  have 2: "forward G self s xt yt (Some (removeAll k ks)) = Inl e"
    if "forward G self s xt yt (Some ks) = Inl e" for e
  proof -
    from that have "forward_loop G self s xt yt ks (?init ks) = Inl e"
      by (simp add: forward_def)
    then have "forward_loop G self s xt yt (filter known ks) (?init ks) = Inl e"
      by (simp add: forward_loop_filter)
    then have "forward_loop G self s xt yt (filter known (removeAll k ks)) (?init ks) = Inl e"
      by (simp add: filter_known_removeAll[OF nk])
    then have "forward_loop G self s xt yt (filter known (removeAll k ks)) (?init (removeAll k ks)) = Inl e"
      by (rule forward_loop_error_indep)
    then have "forward_loop G self s xt yt (removeAll k ks) (?init (removeAll k ks)) = Inl e"
      by (simp add: forward_loop_filter)
    then show ?thesis by (simp add: forward_def)
  qed
  have 3: "\<exists>pd. forward G self s xt yt (Some ks) = Inr pd"
    if "set ks \<inter> {''u'', ''diri'', ''nuem'', ''f''} = {}"
  proof -
    have "\<forall>i \<in> set ks. \<not> known i" using that by (auto simp: known_def)
    then have "filter known ks = []" by (simp add: filter_empty_conv)
    then have "forward_loop G self s xt yt ks (?init ks)
        = Inr (fold (\<lambda>i d. AList.update i None d) ks [])"
      using forward_loop_filter[of G self s xt yt ks, symmetric] by simp
    then show ?thesis by (simp add: forward_def)
  qed
  show ?thesis using 1 2 3 by blast
qed

theorem forward_unknown_role_witness:
  "''other'' \<in> set [''other''] \<and> ''other'' \<notin> {''u'', ''diri'', ''nuem'', ''f''} \<and>
   (\<exists>pd. forward no_autograd self0 store0 [] [] (Some [''other'']) = Inr pd \<and>
         map_of pd ''other'' = Some None)"
proof -
  have a: "''other'' \<in> set [''other'']" by simp
  have b: "''other'' \<notin> {''u'', ''diri'', ''nuem'', ''f''}" by simp
  have c: "set [''other''] \<inter> {''u'', ''diri'', ''nuem'', ''f''} = {}" by simp
  show ?thesis
    using forward_unknown_role[OF a b, of no_autograd self0 store0 "[]" "[]"] a b c by blast
qed

end
